theory Spec2Isabelle
  imports Main "HOL-Library.Word"
begin

unbundle bit_operations_syntax

section \<open>The Escrow contract: data model\<close>

text \<open>
  The ledger is the Solidity contract \<open>Escrow\<close> (pragma \<open>^0.8.19\<close>). Its value types are
  machine words: an \<open>address\<close> has 160 bits, \<open>uint256\<close> and \<open>bytes32\<close> have 256 bits.
  Comparisons on \<open>uint256\<close> are unsigned, as \<open>\<le>\<close> and \<open><\<close> on words are.
\<close>

type_synonym address = "160 word"
type_synonym uint256 = "256 word"
type_synonym bytes32 = "256 word"
type_synonym byte = "8 word"

text \<open>\<open>struct EscrowTransaction\<close>.\<close>

record EscrowTransaction =
  sender :: address
  recipient :: address
  amount :: uint256
  createdAt :: uint256
  releaseTime :: uint256
  isReleased :: bool
  isReturned :: bool
  isActive :: bool

text \<open>The three events of the contract, with their arguments in declaration order.\<close>

datatype event =
    EscrowCreated bytes32 address address uint256 uint256
  | EscrowReleased bytes32 address uint256
  | EscrowReturned bytes32 address uint256

text \<open>
  The storage of the contract: the two mappings, the counter and the re-entrancy flag
  \<open>_locked\<close>, together with the log of the events emitted so far (oldest first). A
  Solidity mapping is total: a key that was never written reads as the all-zero value.
\<close>

record Escrow =
  escrows :: "bytes32 \<Rightarrow> EscrowTransaction"
  userEscrows :: "address \<Rightarrow> bytes32 list"
  escrowCount :: uint256
  locked :: bool
  logs :: "event list"

text \<open>The value every key of \<open>escrows\<close> holds before it is written.\<close>

definition zeroTransaction :: EscrowTransaction where
  "zeroTransaction =
     \<lparr>sender = 0, recipient = 0, amount = 0, createdAt = 0, releaseTime = 0,
      isReleased = False, isReturned = False, isActive = False\<rparr>"

text \<open>The storage right after deployment (the contract has no constructor).\<close>

definition deployed :: Escrow where
  "deployed =
     \<lparr>escrows = (\<lambda>_. zeroTransaction), userEscrows = (\<lambda>_. []), escrowCount = 0,
      locked = False, logs = []\<rparr>"

text \<open>
  Every \<open>require\<close> of the contract is one error, named after its message; the last one is
  the panic \<open>0x11\<close> that checked arithmetic of Solidity 0.8 raises on overflow. An
  operation that ends in an error reverts: the caller keeps the storage it had.
\<close>

datatype error =
    ReentrantCall
  | EscrowDoesNotExist
  | NotAuthorized
  | AmountNotPositive
  | InvalidRecipient
  | CannotSendToYourself
  | OnlyRecipientCanRelease
  | OnlySenderCanReturn
  | AlreadyReleased
  | AlreadyReturned
  | StillInReturnWindow
  | ReturnWindowExpired
  | TransferFailed
  | ReturnFailed
  | ArithmeticOverflow

definition RETURN_WINDOW :: uint256 where
  "RETURN_WINDOW = 300"

section \<open>Identifier derivation\<close>

text \<open>
  \<open>abi.encodePacked\<close> of two addresses and three \<open>uint256\<close> values: each value in big-endian
  bytes at its own width (20 and 32 bytes), concatenated without padding. \<open>be_bytes n w\<close>
  are the \<open>n\<close> low bytes of \<open>w\<close>, most significant first.
\<close>

definition be_bytes :: "nat \<Rightarrow> 'a::len word \<Rightarrow> byte list" where
  "be_bytes n w = map (\<lambda>k. ucast (drop_bit (8 * k) w)) (rev [0..<n])"

definition encodePacked :: "address \<Rightarrow> address \<Rightarrow> uint256 \<Rightarrow> uint256 \<Rightarrow> uint256 \<Rightarrow> byte list" where
  "encodePacked a b v t c =
     be_bytes 20 a @ be_bytes 20 b @ be_bytes 32 v @ be_bytes 32 t @ be_bytes 32 c"

text \<open>
  \<open>keccak256\<close> is a primitive of the execution environment, not code of the contract: every
  operation below takes it as the parameter \<open>keccak256 :: byte list \<Rightarrow> bytes32\<close>. The
  following function is one concrete instance, used where an example has to be evaluated:
  it returns the last 32 bytes of its input, read as a big-endian word.
\<close>

fun be_word :: "byte list \<Rightarrow> bytes32" where
  "be_word [] = 0"
| "be_word (b # bs) = push_bit (8 * length bs) (ucast b) OR be_word bs"

definition counter_digest :: "byte list \<Rightarrow> bytes32" where
  "counter_digest bs = be_word (drop (length bs - 32) bs)"

section \<open>Modifiers\<close>

text \<open>
  A modifier wraps the body of a function; \<open>_\<close> is the place of the body. The body is a
  function from the storage to an error or the new storage.
\<close>

definition nonReentrant :: "(Escrow \<Rightarrow> error + Escrow) \<Rightarrow> Escrow \<Rightarrow> error + Escrow" where
  "nonReentrant body st =
     (if locked st then Inl ReentrantCall
      else case body (st\<lparr>locked := True\<rparr>) of
             Inl e \<Rightarrow> Inl e
           | Inr st' \<Rightarrow> Inr (st'\<lparr>locked := False\<rparr>))"

definition onlyParties ::
  "address \<Rightarrow> bytes32 \<Rightarrow> (Escrow \<Rightarrow> error + Escrow) \<Rightarrow> Escrow \<Rightarrow> error + Escrow" where
  "onlyParties msg_sender escrowId body st =
     (if msg_sender = sender (escrows st escrowId) \<or> msg_sender = recipient (escrows st escrowId)
      then body st else Inl NotAuthorized)"

definition escrowExists :: "bytes32 \<Rightarrow> (Escrow \<Rightarrow> error + Escrow) \<Rightarrow> Escrow \<Rightarrow> error + Escrow" where
  "escrowExists escrowId body st =
     (if isActive (escrows st escrowId) then body st else Inl EscrowDoesNotExist)"

section \<open>Mutating operations\<close>

text \<open>
  \<open>createEscrow\<close> is \<open>external payable\<close> and carries no modifier. \<open>msg.sender\<close>, \<open>msg.value\<close>
  and \<open>block.timestamp\<close> are arguments. The post-increment \<open>escrowCount++\<close> and the sum
  \<open>block.timestamp + RETURN_WINDOW\<close> are checked: on overflow the call panics and reverts.
\<close>

definition createEscrow ::
  "(byte list \<Rightarrow> bytes32) \<Rightarrow> address \<Rightarrow> uint256 \<Rightarrow> uint256 \<Rightarrow> address \<Rightarrow> Escrow
     \<Rightarrow> error + (bytes32 \<times> Escrow)" where
  "createEscrow keccak256 msg_sender msg_value block_timestamp rcpt st =
     (if \<not> msg_value > 0 then Inl AmountNotPositive
      else if \<not> rcpt \<noteq> 0 then Inl InvalidRecipient
      else if \<not> rcpt \<noteq> msg_sender then Inl CannotSendToYourself
      else if \<not> unat (escrowCount st) + 1 < 2 ^ 256 then Inl ArithmeticOverflow
      else
        let escrowId =
              keccak256 (encodePacked msg_sender rcpt msg_value block_timestamp (escrowCount st));
            st1 = st\<lparr>escrowCount := escrowCount st + 1\<rparr>
        in
        if \<not> unat block_timestamp + unat RETURN_WINDOW < 2 ^ 256 then Inl ArithmeticOverflow
        else
          let rt = block_timestamp + RETURN_WINDOW;
              st2 = st1\<lparr>escrows := (escrows st1)(escrowId :=
                      \<lparr>sender = msg_sender, recipient = rcpt, amount = msg_value,
                       createdAt = block_timestamp, releaseTime = rt,
                       isReleased = False, isReturned = False, isActive = True\<rparr>)\<rparr>;
              st3 = st2\<lparr>userEscrows := (userEscrows st2)
                      (msg_sender := userEscrows st2 msg_sender @ [escrowId])\<rparr>;
              st4 = st3\<lparr>userEscrows := (userEscrows st3)
                      (rcpt := userEscrows st3 rcpt @ [escrowId])\<rparr>;
              st5 = st4\<lparr>logs := logs st4 @ [EscrowCreated escrowId msg_sender rcpt msg_value rt]\<rparr>
          in Inr (escrowId, st5))"

text \<open>
  \<open>releaseEscrow\<close> and \<open>returnEscrow\<close> end in the low-level call
  \<open>payee.call{value: amount}("")\<close>, which hands control to the payee. It is the parameter
  \<open>call\<close>: given the payee, the value and the storage at the moment of the call, it yields
  \<open>None\<close> when the call reports failure and \<open>Some st'\<close> when it reports success, \<open>st'\<close>
  being the storage the payee left behind.
\<close>

definition releaseEscrow ::
  "(address \<Rightarrow> uint256 \<Rightarrow> Escrow \<Rightarrow> Escrow option) \<Rightarrow> address \<Rightarrow> uint256 \<Rightarrow> bytes32 \<Rightarrow> Escrow
     \<Rightarrow> error + Escrow" where
  "releaseEscrow call msg_sender block_timestamp escrowId =
     nonReentrant (escrowExists escrowId (onlyParties msg_sender escrowId (\<lambda>st.
       if \<not> msg_sender = recipient (escrows st escrowId) then Inl OnlyRecipientCanRelease
       else if \<not> \<not> isReleased (escrows st escrowId) then Inl AlreadyReleased
       else if \<not> \<not> isReturned (escrows st escrowId) then Inl AlreadyReturned
       else if \<not> block_timestamp \<ge> releaseTime (escrows st escrowId) then Inl StillInReturnWindow
       else
         let st1 = st\<lparr>escrows := (escrows st)(escrowId := (escrows st escrowId)\<lparr>isReleased := True\<rparr>)\<rparr>;
             st2 = st1\<lparr>escrows := (escrows st1)(escrowId := (escrows st1 escrowId)\<lparr>isActive := False\<rparr>)\<rparr>;
             payee = recipient (escrows st2 escrowId);
             amt = amount (escrows st2 escrowId)
         in
         case call payee amt st2 of
           None \<Rightarrow> Inl TransferFailed
         | Some st3 \<Rightarrow> Inr (st3\<lparr>logs := logs st3 @ [EscrowReleased escrowId payee amt]\<rparr>))))"

definition returnEscrow ::
  "(address \<Rightarrow> uint256 \<Rightarrow> Escrow \<Rightarrow> Escrow option) \<Rightarrow> address \<Rightarrow> uint256 \<Rightarrow> bytes32 \<Rightarrow> Escrow
     \<Rightarrow> error + Escrow" where
  "returnEscrow call msg_sender block_timestamp escrowId =
     nonReentrant (escrowExists escrowId (\<lambda>st.
       if \<not> msg_sender = sender (escrows st escrowId) then Inl OnlySenderCanReturn
       else if \<not> \<not> isReleased (escrows st escrowId) then Inl AlreadyReleased
       else if \<not> \<not> isReturned (escrows st escrowId) then Inl AlreadyReturned
       else if \<not> block_timestamp < releaseTime (escrows st escrowId) then Inl ReturnWindowExpired
       else
         let st1 = st\<lparr>escrows := (escrows st)(escrowId := (escrows st escrowId)\<lparr>isReturned := True\<rparr>)\<rparr>;
             st2 = st1\<lparr>escrows := (escrows st1)(escrowId := (escrows st1 escrowId)\<lparr>isActive := False\<rparr>)\<rparr>;
             payee = sender (escrows st2 escrowId);
             amt = amount (escrows st2 escrowId)
         in
         case call payee amt st2 of
           None \<Rightarrow> Inl ReturnFailed
         | Some st3 \<Rightarrow> Inr (st3\<lparr>logs := logs st3 @ [EscrowReturned escrowId payee amt]\<rparr>)))"

section \<open>View functions\<close>

definition getEscrow :: "bytes32 \<Rightarrow> Escrow \<Rightarrow> EscrowTransaction" where
  "getEscrow escrowId st = escrows st escrowId"

definition getUserEscrows :: "address \<Rightarrow> Escrow \<Rightarrow> bytes32 list" where
  "getUserEscrows user st = userEscrows st user"

definition getEscrowStatus :: "uint256 \<Rightarrow> bytes32 \<Rightarrow> Escrow \<Rightarrow> bool \<times> bool \<times> bool \<times> uint256" where
  "getEscrowStatus block_timestamp escrowId st =
     (let escrow = escrows st escrowId;
          timeRemaining =
            (if block_timestamp < releaseTime escrow then releaseTime escrow - block_timestamp
             else 0)
      in (isActive escrow, isReleased escrow, isReturned escrow, timeRemaining))"

definition canReturn :: "uint256 \<Rightarrow> bytes32 \<Rightarrow> Escrow \<Rightarrow> bool" where
  "canReturn block_timestamp escrowId st =
     (let escrow = escrows st escrowId
      in isActive escrow \<and> \<not> isReleased escrow \<and> \<not> isReturned escrow \<and>
         block_timestamp < releaseTime escrow)"

definition canRelease :: "uint256 \<Rightarrow> bytes32 \<Rightarrow> Escrow \<Rightarrow> bool" where
  "canRelease block_timestamp escrowId st =
     (let escrow = escrows st escrowId
      in isActive escrow \<and> \<not> isReleased escrow \<and> \<not> isReturned escrow \<and>
         block_timestamp \<ge> releaseTime escrow)"

section \<open>Transactions and re-entry\<close>

text \<open>
  A call into the contract. \<open>CreateEscrow caller value recipient\<close> is \<open>createEscrow\<close>;
  \<open>ReleaseEscrow caller id cs ok\<close> and \<open>ReturnEscrow caller id cs ok\<close> are the two finalising
  operations together with what their payee does once it has control: it makes the calls
  \<open>cs\<close> back into the contract, in this order, each from any address it controls, and then
  reports \<open>ok\<close>. A nested call that reverts is caught by the payee, which goes on; when the
  payee reports failure, everything it did is rolled back with it. \<open>ok = False\<close> stands for
  every way in which the low-level call can report failure (the payee reverts, runs out of
  gas or cannot be paid). \<open>block.timestamp\<close> is the same for a call and the calls nested in
  it.
\<close>

datatype call =
    CreateEscrow address uint256 address
  | ReleaseEscrow address bytes32 "call list" bool
  | ReturnEscrow address bytes32 "call list" bool

fun exec ::
  "(byte list \<Rightarrow> bytes32) \<Rightarrow> uint256 \<Rightarrow> call \<Rightarrow> Escrow \<Rightarrow> error + (bytes32 option \<times> Escrow)" where
  "exec keccak256 now (CreateEscrow caller v rcpt) st =
     (case createEscrow keccak256 caller v now rcpt st of
        Inl e \<Rightarrow> Inl e
      | Inr (i, st') \<Rightarrow> Inr (Some i, st'))"
| "exec keccak256 now (ReleaseEscrow caller i cs ok) st =
     (case releaseEscrow
             (\<lambda>payee amt s.
                if ok
                then Some (fold (\<lambda>c s'. case exec keccak256 now c s' of
                                           Inl e \<Rightarrow> s' | Inr (r, s'') \<Rightarrow> s'') cs s)
                else None)
             caller now i st of
        Inl e \<Rightarrow> Inl e
      | Inr st' \<Rightarrow> Inr (None, st'))"
| "exec keccak256 now (ReturnEscrow caller i cs ok) st =
     (case returnEscrow
             (\<lambda>payee amt s.
                if ok
                then Some (fold (\<lambda>c s'. case exec keccak256 now c s' of
                                           Inl e \<Rightarrow> s' | Inr (r, s'') \<Rightarrow> s'') cs s)
                else None)
             caller now i st of
        Inl e \<Rightarrow> Inl e
      | Inr st' \<Rightarrow> Inr (None, st'))"

text \<open>The storage after a call: the new storage when it succeeds, the old one when it reverts.\<close>

definition after :: "(byte list \<Rightarrow> bytes32) \<Rightarrow> uint256 \<Rightarrow> call \<Rightarrow> Escrow \<Rightarrow> Escrow" where
  "after keccak256 now c st =
     (case exec keccak256 now c st of Inl e \<Rightarrow> st | Inr (r, st') \<Rightarrow> st')"

text \<open>A run is a list of transactions, each a block timestamp and a call, executed in order.\<close>

fun run :: "(byte list \<Rightarrow> bytes32) \<Rightarrow> (uint256 \<times> call) list \<Rightarrow> Escrow \<Rightarrow> Escrow" where
  "run keccak256 [] st = st"
| "run keccak256 ((now, c) # txs) st = run keccak256 txs (after keccak256 now c st)"


section \<open>Observations used in the statements\<close>

text \<open>
  The storage at the moment \<open>releaseEscrow\<close> (respectively \<open>returnEscrow\<close>) makes its external
  call: the guard is taken and the two flags of the record are already written.
\<close>

definition at_release :: "bytes32 \<Rightarrow> Escrow \<Rightarrow> Escrow" where
  "at_release i st =
     st\<lparr>locked := True,
        escrows := (escrows st)(i := (escrows st i)\<lparr>isReleased := True, isActive := False\<rparr>)\<rparr>"

definition at_return :: "bytes32 \<Rightarrow> Escrow \<Rightarrow> Escrow" where
  "at_return i st =
     st\<lparr>locked := True,
        escrows := (escrows st)(i := (escrows st i)\<lparr>isReturned := True, isActive := False\<rparr>)\<rparr>"

text \<open>
  The identifiers the log records as created and as finalised (released or returned), in
  the order of the events. A successful \<open>createEscrow\<close> appends its identifier to the
  first list, a successful \<open>releaseEscrow\<close> or \<open>returnEscrow\<close> to the second.
\<close>

fun created_of :: "event \<Rightarrow> bytes32 list" where
  "created_of (EscrowCreated i a r v rt) = [i]"
| "created_of (EscrowReleased i p v) = []"
| "created_of (EscrowReturned i p v) = []"

fun finalised_of :: "event \<Rightarrow> bytes32 list" where
  "finalised_of (EscrowCreated i a r v rt) = []"
| "finalised_of (EscrowReleased i p v) = [i]"
| "finalised_of (EscrowReturned i p v) = [i]"

definition created_ids :: "Escrow \<Rightarrow> bytes32 list" where
  "created_ids st = concat (map created_of (logs st))"

definition finalised_ids :: "Escrow \<Rightarrow> bytes32 list" where
  "finalised_ids st = concat (map finalised_of (logs st))"

text \<open>
  The byte strings that were hashed to obtain the created identifiers: the \<open>k\<close>-th creation
  packs its sender, recipient, amount and timestamp (its release time less the window)
  with the counter \<open>k\<close>.
\<close>

fun preimages_from :: "nat \<Rightarrow> event list \<Rightarrow> byte list list" where
  "preimages_from k [] = []"
| "preimages_from k (EscrowCreated i a r v rt # es) =
     encodePacked a r v (rt - RETURN_WINDOW) (of_nat k) # preimages_from (Suc k) es"
| "preimages_from k (EscrowReleased i p v # es) = preimages_from k es"
| "preimages_from k (EscrowReturned i p v # es) = preimages_from k es"

definition preimages :: "Escrow \<Rightarrow> byte list list" where
  "preimages st = preimages_from 0 (logs st)"

text \<open>\<open>finalises i c\<close>: the call \<open>c\<close> is a release or a return of the escrow \<open>i\<close>.\<close>

fun finalises :: "bytes32 \<Rightarrow> call \<Rightarrow> bool" where
  "finalises i (CreateEscrow caller v r) = False"
| "finalises i (ReleaseEscrow caller j cs ok) = (j = i)"
| "finalises i (ReturnEscrow caller j cs ok) = (j = i)"

text \<open>
  The invariant of the records: a created record has a recipient and an amount and its
  flags are consistent; a key that was never created still holds the zero value.
\<close>

definition well_formed :: "Escrow \<Rightarrow> bool" where
  "well_formed st \<longleftrightarrow>
     (\<forall>i. if i \<in> set (created_ids st)
          then recipient (escrows st i) \<noteq> 0 \<and> amount (escrows st i) \<noteq> 0 \<and>
               (isActive (escrows st i) \<longleftrightarrow> \<not> (isReleased (escrows st i) \<or> isReturned (escrows st i))) \<and>
               \<not> (isReleased (escrows st i) \<and> isReturned (escrows st i))
          else escrows st i = zeroTransaction)"

text \<open>
  \<open>grows s t\<close>: \<open>t\<close> differs from \<open>s\<close> by creations only. \<open>extends s t\<close>: the logs of \<open>t\<close>
  continue those of \<open>s\<close>, and a record that is inactive in \<open>s\<close> is the same in \<open>t\<close> unless
  its identifier was created again in between.
\<close>

definition grows :: "Escrow \<Rightarrow> Escrow \<Rightarrow> bool" where
  "grows s t \<longleftrightarrow>
     locked t = locked s \<and> finalised_ids t = finalised_ids s \<and>
     (\<exists>ys. created_ids t = created_ids s @ ys \<and> (\<forall>j. j \<notin> set ys \<longrightarrow> escrows t j = escrows s j))"

definition extends :: "Escrow \<Rightarrow> Escrow \<Rightarrow> bool" where
  "extends s t \<longleftrightarrow>
     (\<exists>zs. finalised_ids t = finalised_ids s @ zs) \<and>
     (\<exists>ys. created_ids t = created_ids s @ ys \<and>
        (\<forall>j. j \<notin> set ys \<and> \<not> isActive (escrows s j) \<longrightarrow> escrows t j = escrows s j))"

text \<open>
  As long as no identifier was created twice, no identifier was finalised twice, and every
  finalised identifier belongs to a created record that is inactive.
\<close>

definition finalised_once :: "Escrow \<Rightarrow> bool" where
  "finalised_once s \<longleftrightarrow>
     (distinct (created_ids s) \<longrightarrow>
        distinct (finalised_ids s) \<and>
        (\<forall>i\<in>set (finalised_ids s). i \<in> set (created_ids s) \<and> \<not> isActive (escrows s i)))"

text \<open>
  The created identifiers are the digests of the recorded inputs, and the counter fields of
  these inputs (their last 32 bytes, which \<open>counter_digest\<close> reads) are \<open>0, 1, \<dots>\<close> up to
  the current value of \<open>escrowCount\<close>.
\<close>

definition counted :: "(byte list \<Rightarrow> bytes32) \<Rightarrow> Escrow \<Rightarrow> bool" where
  "counted H s \<longleftrightarrow>
     created_ids s = map H (preimages s) \<and>
     map counter_digest (preimages s) = map of_nat [0..<unat (escrowCount s)]"

text \<open>The two conditions on the flags of one record.\<close>

definition flags_consistent :: "EscrowTransaction \<Rightarrow> bool" where
  "flags_consistent e \<longleftrightarrow>
     \<not> (isReleased e \<and> isReturned e) \<and> (isActive e \<longleftrightarrow> \<not> (isReleased e \<or> isReturned e))"

text \<open>What holds of the storage between two transactions.\<close>

definition consistent :: "Escrow \<Rightarrow> bool" where
  "consistent s \<longleftrightarrow> well_formed s \<and> \<not> locked s \<and> finalised_once s"

section \<open>The operations, characterised\<close>

lemma releaseEscrow_Inr_iff:
  "releaseEscrow call caller now i st = Inr st' \<longleftrightarrow>
     \<not> locked st \<and> isActive (escrows st i) \<and> caller = recipient (escrows st i) \<and>
     \<not> isReleased (escrows st i) \<and> \<not> isReturned (escrows st i) \<and>
     releaseTime (escrows st i) \<le> now \<and>
     (\<exists>st3. call (recipient (escrows st i)) (amount (escrows st i)) (at_release i st) = Some st3 \<and>
        st' = st3\<lparr>locked := False,
                  logs := logs st3 @ [EscrowReleased i (recipient (escrows st i)) (amount (escrows st i))]\<rparr>)"
  by (auto simp: releaseEscrow_def nonReentrant_def escrowExists_def onlyParties_def at_release_def
        Let_def split: sum.splits option.splits if_splits)

lemma returnEscrow_Inr_iff:
  "returnEscrow call caller now i st = Inr st' \<longleftrightarrow>
     \<not> locked st \<and> isActive (escrows st i) \<and> caller = sender (escrows st i) \<and>
     \<not> isReleased (escrows st i) \<and> \<not> isReturned (escrows st i) \<and>
     now < releaseTime (escrows st i) \<and>
     (\<exists>st3. call (sender (escrows st i)) (amount (escrows st i)) (at_return i st) = Some st3 \<and>
        st' = st3\<lparr>locked := False,
                  logs := logs st3 @ [EscrowReturned i (sender (escrows st i)) (amount (escrows st i))]\<rparr>)"
  by (auto simp: returnEscrow_def nonReentrant_def escrowExists_def at_return_def
        Let_def split: sum.splits option.splits if_splits)

lemma createEscrow_Inr_iff:
  "createEscrow H caller v now r st = Inr (i, st') \<longleftrightarrow>
     0 < v \<and> r \<noteq> 0 \<and> r \<noteq> caller \<and> unat (escrowCount st) + 1 < 2 ^ 256 \<and>
     unat now + 300 < 2 ^ 256 \<and>
     i = H (encodePacked caller r v now (escrowCount st)) \<and>
     st' = st\<lparr>escrowCount := escrowCount st + 1,
              escrows := (escrows st)(i :=
                \<lparr>sender = caller, recipient = r, amount = v, createdAt = now,
                 releaseTime = now + 300, isReleased = False, isReturned = False, isActive = True\<rparr>),
              userEscrows := (userEscrows st)(caller := userEscrows st caller @ [i],
                                              r := userEscrows st r @ [i]),
              logs := logs st @ [EscrowCreated i caller r v (now + 300)]\<rparr>"
  by (auto simp: createEscrow_def RETURN_WINDOW_def Let_def split: if_splits)

lemma releaseEscrow_locked: "locked st \<Longrightarrow> releaseEscrow call caller now i st = Inl ReentrantCall"
  by (simp add: releaseEscrow_def nonReentrant_def)

lemma returnEscrow_locked: "locked st \<Longrightarrow> returnEscrow call caller now i st = Inl ReentrantCall"
  by (simp add: returnEscrow_def nonReentrant_def)

lemma releaseEscrow_inactive:
  "\<not> locked st \<Longrightarrow> \<not> isActive (escrows st i) \<Longrightarrow>
   releaseEscrow call caller now i st = Inl EscrowDoesNotExist"
  by (simp add: releaseEscrow_def nonReentrant_def escrowExists_def)

lemma returnEscrow_inactive:
  "\<not> locked st \<Longrightarrow> \<not> isActive (escrows st i) \<Longrightarrow>
   returnEscrow call caller now i st = Inl EscrowDoesNotExist"
  by (simp add: returnEscrow_def nonReentrant_def escrowExists_def)

section \<open>The digest of the examples reads the counter back\<close>

lemma length_be_bytes [simp]: "length (be_bytes n w) = n"
  by (simp add: be_bytes_def)

lemma bit_be_word:
  "bit (be_word bs) n \<longleftrightarrow> n < 256 \<and> n div 8 < length bs \<and> bit (rev bs ! (n div 8)) (n mod 8)"
proof (induction bs)
  case Nil
  show ?case by simp
next
  case (Cons b bs)
  show ?case
  proof (cases "n div 8 < length bs")
    case True
    then have "\<not> 8 * length bs \<le> n" by auto
    with True Cons show ?thesis
      by (simp add: bit_or_iff bit_push_bit_iff nth_append)
  next
    case False
    show ?thesis
    proof (cases "n div 8 = length bs")
      case True
      have "n = 8 * (n div 8) + n mod 8" by simp
      with True have a: "8 * length bs \<le> n" and b: "n - 8 * length bs = n mod 8"
        by linarith+
      from True Cons False a b show ?thesis
        by (auto simp add: bit_or_iff bit_push_bit_iff nth_append bit_ucast_iff)
    next
      case F2: False
      with False have c: "\<not> n div 8 < Suc (length bs)" by simp
      from False F2 have "8 * length bs + 8 \<le> n" by auto
      then have d: "\<not> n - 8 * length bs < 8" by simp
      from c d False Cons show ?thesis
        by (auto simp add: bit_or_iff bit_push_bit_iff bit_ucast_iff dest: bit_imp_le_length)
    qed
  qed
qed

lemma be_word_be_bytes: "be_word (be_bytes 32 c) = c"
proof (rule bit_word_eqI)
  fix n assume n: "n < LENGTH(256)"
  then have d: "n div 8 < 32" by simp
  have e: "8 * (n div 8) + n mod 8 = n" by simp
  show "bit (be_word (be_bytes 32 c)) n = bit c n"
    using n d by (simp add: bit_be_word be_bytes_def rev_map bit_ucast_iff bit_drop_bit_eq e)
qed

lemma counter_digest_encodePacked: "counter_digest (encodePacked a b v t c) = c"
  by (simp add: counter_digest_def encodePacked_def be_word_be_bytes)

section \<open>Calls, callbacks and runs\<close>

lemma exec_release:
  "exec H now (ReleaseEscrow caller i cs ok) st =
     (case releaseEscrow (\<lambda>p a s. if ok then Some (fold (after H now) cs s) else None) caller now i st of
        Inl e \<Rightarrow> Inl e | Inr st' \<Rightarrow> Inr (None, st'))"
  by (cases ok) (simp_all add: after_def [abs_def])

lemma exec_return:
  "exec H now (ReturnEscrow caller i cs ok) st =
     (case returnEscrow (\<lambda>p a s. if ok then Some (fold (after H now) cs s) else None) caller now i st of
        Inl e \<Rightarrow> Inl e | Inr st' \<Rightarrow> Inr (None, st'))"
  by (cases ok) (simp_all add: after_def [abs_def])

declare exec.simps(2,3) [simp del]
declare exec_release [simp] exec_return [simp]

lemma exec_cases [consumes 1, case_names create release return]:
  assumes "exec H now c s = Inr (r, s')"
  obtains
    (create) caller v rc i where "c = CreateEscrow caller v rc"
      "createEscrow H caller v now rc s = Inr (i, s')" "r = Some i"
  | (release) caller i cs where "c = ReleaseEscrow caller i cs True"
      "\<not> locked s" "isActive (escrows s i)" "caller = recipient (escrows s i)"
      "\<not> isReleased (escrows s i)" "\<not> isReturned (escrows s i)" "releaseTime (escrows s i) \<le> now"
      "s' = (fold (after H now) cs (at_release i s))
              \<lparr>locked := False,
               logs := logs (fold (after H now) cs (at_release i s)) @
                       [EscrowReleased i (recipient (escrows s i)) (amount (escrows s i))]\<rparr>"
  | (return) caller i cs where "c = ReturnEscrow caller i cs True"
      "\<not> locked s" "isActive (escrows s i)" "caller = sender (escrows s i)"
      "\<not> isReleased (escrows s i)" "\<not> isReturned (escrows s i)" "now < releaseTime (escrows s i)"
      "s' = (fold (after H now) cs (at_return i s))
              \<lparr>locked := False,
               logs := logs (fold (after H now) cs (at_return i s)) @
                       [EscrowReturned i (sender (escrows s i)) (amount (escrows s i))]\<rparr>"
proof (cases c)
  case (CreateEscrow caller v rc)
  with assms create show ?thesis by (auto split: sum.splits)
next
  case (ReleaseEscrow caller i cs ok)
  with assms obtain st' where "releaseEscrow (\<lambda>p a s. if ok then Some (fold (after H now) cs s) else None) caller now i s = Inr st'" "s' = st'"
    by (auto simp: exec_release split: sum.splits)
  with ReleaseEscrow release show ?thesis
    by (auto simp: releaseEscrow_Inr_iff split: if_splits)
next
  case (ReturnEscrow caller i cs ok)
  with assms obtain st' where "returnEscrow (\<lambda>p a s. if ok then Some (fold (after H now) cs s) else None) caller now i s = Inr st'" "s' = st'"
    by (auto simp: exec_return split: sum.splits)
  with ReturnEscrow return show ?thesis
    by (auto simp: returnEscrow_Inr_iff split: if_splits)
qed

lemma after_locked:
  assumes "locked s"
  shows "after H now c s = s \<or>
         (\<exists>caller v rc i. createEscrow H caller v now rc s = Inr (i, after H now c s))"
proof (cases "exec H now c s")
  case (Inl e)
  then show ?thesis by (simp add: after_def)
next
  case (Inr p)
  then obtain r s' where e: "exec H now c s = Inr (r, s')" by (cases p) auto
  then have a: "after H now c s = s'" by (simp add: after_def)
  from e assms show ?thesis unfolding a by (cases rule: exec_cases) auto
qed

lemma createEscrow_locked: "createEscrow H caller v now rc s = Inr (i, s') \<Longrightarrow> locked s' = locked s"
  by (auto simp: createEscrow_Inr_iff)

lemma callbacks_induct:
  assumes "locked s" and "P s"
    and step: "\<And>caller v rc t i t'. locked t \<Longrightarrow> P t \<Longrightarrow>
                 createEscrow H caller v now rc t = Inr (i, t') \<Longrightarrow> P t'"
  shows "P (fold (after H now) cs s) \<and> locked (fold (after H now) cs s)"
  using assms(1,2)
proof (induction cs arbitrary: s)
  case Nil
  then show ?case by simp
next
  case (Cons c cs)
  from after_locked [OF Cons.prems(1), of H now c]
  have "locked (after H now c s) \<and> P (after H now c s)"
  proof
    assume "after H now c s = s"
    with Cons.prems show ?thesis by simp
  next
    assume "\<exists>caller v rc i. createEscrow H caller v now rc s = Inr (i, after H now c s)"
    then obtain caller v rc i where
      c: "createEscrow H caller v now rc s = Inr (i, after H now c s)" by blast
    from step [OF Cons.prems c] createEscrow_locked [OF c] Cons.prems(1)
    show ?thesis by simp
  qed
  then show ?case using Cons.IH by simp
qed


lemma created_ids_simps [simp]:
  "created_ids (at_release i s) = created_ids s"
  "created_ids (at_return i s) = created_ids s"
  "created_ids (t\<lparr>locked := b, logs := logs t @ [EscrowReleased i p v]\<rparr>) = created_ids t"
  "created_ids (t\<lparr>locked := b, logs := logs t @ [EscrowReturned i p v]\<rparr>) = created_ids t"
  by (simp_all add: created_ids_def at_release_def at_return_def)

lemma finalised_ids_simps [simp]:
  "finalised_ids (at_release i s) = finalised_ids s"
  "finalised_ids (at_return i s) = finalised_ids s"
  "finalised_ids (t\<lparr>locked := b, logs := logs t @ [EscrowReleased i p v]\<rparr>) = finalised_ids t @ [i]"
  "finalised_ids (t\<lparr>locked := b, logs := logs t @ [EscrowReturned i p v]\<rparr>) = finalised_ids t @ [i]"
  by (simp_all add: finalised_ids_def at_release_def at_return_def)

lemma finish_simps [simp]:
  "escrows (t\<lparr>locked := b, logs := l\<rparr>) = escrows t"
  "escrowCount (t\<lparr>locked := b, logs := l\<rparr>) = escrowCount t"
  "locked (t\<lparr>locked := b, logs := l\<rparr>) = b"
  by simp_all

lemma at_simps [simp]:
  "locked (at_release i s)" "locked (at_return i s)"
  "escrowCount (at_release i s) = escrowCount s" "escrowCount (at_return i s) = escrowCount s"
  "logs (at_release i s) = logs s" "logs (at_return i s) = logs s"
  "escrows (at_release i s) = (escrows s)(i := (escrows s i)\<lparr>isReleased := True, isActive := False\<rparr>)"
  "escrows (at_return i s) = (escrows s)(i := (escrows s i)\<lparr>isReturned := True, isActive := False\<rparr>)"
  by (simp_all add: at_release_def at_return_def)

lemma createEscrow_ids:
  assumes "createEscrow H caller v now rc s = Inr (i, s')"
  shows "created_ids s' = created_ids s @ [i]" "finalised_ids s' = finalised_ids s"
    "\<And>j. j \<noteq> i \<Longrightarrow> escrows s' j = escrows s j"
    "escrows s' i = \<lparr>sender = caller, recipient = rc, amount = v, createdAt = now,
       releaseTime = now + 300, isReleased = False, isReturned = False, isActive = True\<rparr>"
    "0 < v" "rc \<noteq> 0" "rc \<noteq> caller"
  using assms by (auto simp: createEscrow_Inr_iff created_ids_def finalised_ids_def)

lemma grows_refl: "grows s s"
  by (simp add: grows_def)

lemma grows_trans: "grows s t \<Longrightarrow> grows t u \<Longrightarrow> grows s u"
  unfolding grows_def by (elim conjE exE) (rule conjI, simp, rule conjI, simp, auto)

lemma grows_create:
  "createEscrow H caller v now rc s = Inr (i, s') \<Longrightarrow> grows s s'"
  unfolding grows_def
  by (auto simp: createEscrow_ids createEscrow_locked intro!: exI [of _ "[i]"])

lemma callbacks_grows:
  assumes "locked s"
  shows "grows s (fold (after H now) cs s)"
proof -
  have "grows s (fold (after H now) cs s) \<and> locked (fold (after H now) cs s)"
    using assms grows_refl
    by (rule callbacks_induct) (blast intro: grows_trans grows_create)
  then show ?thesis ..
qed

lemma well_formed_create:
  assumes "well_formed s" "createEscrow H caller v now rc s = Inr (i, s')"
  shows "well_formed s'"
  unfolding well_formed_def
proof
  fix j
  show "if j \<in> set (created_ids s')
          then recipient (escrows s' j) \<noteq> 0 \<and> amount (escrows s' j) \<noteq> 0 \<and>
               (isActive (escrows s' j) \<longleftrightarrow> \<not> (isReleased (escrows s' j) \<or> isReturned (escrows s' j))) \<and>
               \<not> (isReleased (escrows s' j) \<and> isReturned (escrows s' j))
          else escrows s' j = zeroTransaction"
  proof (cases "j = i")
    case True
    with createEscrow_ids [OF assms(2)] show ?thesis by auto
  next
    case False
    with createEscrow_ids(1,3) [OF assms(2)] assms(1) [unfolded well_formed_def, rule_format, of j]
    show ?thesis by simp
  qed
qed

lemma well_formed_callbacks:
  assumes "locked s" "well_formed s"
  shows "well_formed (fold (after H now) cs s)"
proof -
  have "well_formed (fold (after H now) cs s) \<and> locked (fold (after H now) cs s)"
    using assms by (rule callbacks_induct) (rule well_formed_create)
  then show ?thesis ..
qed

lemma well_formed_created:
  "well_formed s \<Longrightarrow> isActive (escrows s i) \<Longrightarrow> i \<in> set (created_ids s)"
  unfolding well_formed_def by (erule allE [of _ i]) (auto simp: zeroTransaction_def split: if_splits)

lemma well_formed_at_release:
  assumes "well_formed s" "isActive (escrows s i)"
  shows "well_formed (at_release i s)"
  using assms well_formed_created [OF assms]
  unfolding well_formed_def
  by (auto split: if_splits)

lemma well_formed_at_return:
  assumes "well_formed s" "isActive (escrows s i)"
  shows "well_formed (at_return i s)"
  using assms well_formed_created [OF assms]
  unfolding well_formed_def
  by (auto split: if_splits)

lemma well_formed_finish:
  "well_formed t \<Longrightarrow> well_formed (t\<lparr>locked := b, logs := logs t @ [EscrowReleased i p v]\<rparr>)"
  "well_formed t \<Longrightarrow> well_formed (t\<lparr>locked := b, logs := logs t @ [EscrowReturned i p v]\<rparr>)"
  unfolding well_formed_def by simp_all

lemma well_formed_exec:
  assumes "exec H now c s = Inr (r, s')" "well_formed s"
  shows "well_formed s'"
  using assms(1)
proof (cases rule: exec_cases)
  case (create caller v rc i)
  with assms(2) show ?thesis by (blast intro: well_formed_create)
next
  case (release caller i cs)
  from assms(2) release(3) have "well_formed (at_release i s)" by (rule well_formed_at_release)
  then have "well_formed (fold (after H now) cs (at_release i s))"
    by (intro well_formed_callbacks) simp_all
  then show ?thesis unfolding release(8) by (rule well_formed_finish)
next
  case (return caller i cs)
  from assms(2) return(3) have "well_formed (at_return i s)" by (rule well_formed_at_return)
  then have "well_formed (fold (after H now) cs (at_return i s))"
    by (intro well_formed_callbacks) simp_all
  then show ?thesis unfolding return(8) by (rule well_formed_finish)
qed


lemma extends_refl: "extends s s"
  by (simp add: extends_def)

lemma extends_trans:
  assumes "extends s t" "extends t u"
  shows "extends s u"
proof -
  from assms(1) obtain zs ys where
    st: "finalised_ids t = finalised_ids s @ zs" "created_ids t = created_ids s @ ys"
    "\<And>j. j \<notin> set ys \<Longrightarrow> \<not> isActive (escrows s j) \<Longrightarrow> escrows t j = escrows s j"
    unfolding extends_def by blast
  from assms(2) obtain zs' ys' where
    tu: "finalised_ids u = finalised_ids t @ zs'" "created_ids u = created_ids t @ ys'"
    "\<And>j. j \<notin> set ys' \<Longrightarrow> \<not> isActive (escrows t j) \<Longrightarrow> escrows u j = escrows t j"
    unfolding extends_def by blast
  have "escrows u j = escrows s j" if "j \<notin> set (ys @ ys')" "\<not> isActive (escrows s j)" for j
  proof -
    from that have a: "escrows t j = escrows s j" by (intro st(3)) auto
    with that have "escrows u j = escrows t j" by (intro tu(3)) auto
    with a show ?thesis by simp
  qed
  moreover have "finalised_ids u = finalised_ids s @ (zs @ zs')" "created_ids u = created_ids s @ (ys @ ys')"
    using st(1,2) tu(1,2) by simp_all
  ultimately show ?thesis unfolding extends_def by blast
qed

lemma extends_created:
  assumes "extends s t" "distinct (created_ids t)"
  shows "distinct (created_ids s)"
    and "i \<in> set (created_ids s) \<Longrightarrow> i \<in> set (created_ids t)"
    and "i \<in> set (finalised_ids s) \<Longrightarrow> i \<in> set (finalised_ids t)"
    and "i \<in> set (created_ids s) \<Longrightarrow> \<not> isActive (escrows s i) \<Longrightarrow> escrows t i = escrows s i"
proof -
  from assms(1) obtain zs ys where
    st: "finalised_ids t = finalised_ids s @ zs" "created_ids t = created_ids s @ ys"
    "\<And>j. j \<notin> set ys \<Longrightarrow> \<not> isActive (escrows s j) \<Longrightarrow> escrows t j = escrows s j"
    unfolding extends_def by blast
  from st(2) assms(2) show "distinct (created_ids s)" by simp
  from st(2) show "i \<in> set (created_ids s) \<Longrightarrow> i \<in> set (created_ids t)" by simp
  from st(1) show "i \<in> set (finalised_ids s) \<Longrightarrow> i \<in> set (finalised_ids t)" by simp
  assume "i \<in> set (created_ids s)" "\<not> isActive (escrows s i)"
  moreover from this(1) st(2) assms(2) have "i \<notin> set ys" by auto
  ultimately show "escrows t i = escrows s i" by (intro st(3))
qed

lemma extends_exec:
  assumes "exec H now c s = Inr (r, s')"
  shows "extends s s'"
  using assms
proof (cases rule: exec_cases)
  case (create caller v rc i)
  from createEscrow_ids(1,2,3) [OF create(2)] show ?thesis
    unfolding extends_def by (auto intro!: exI [of _ "[i]"])
next
  case (release caller i cs)
  have "grows (at_release i s) (fold (after H now) cs (at_release i s))"
    by (rule callbacks_grows) simp
  then obtain ys where
    g: "finalised_ids (fold (after H now) cs (at_release i s)) = finalised_ids s"
       "created_ids (fold (after H now) cs (at_release i s)) = created_ids s @ ys"
       "\<And>j. j \<notin> set ys \<Longrightarrow> escrows (fold (after H now) cs (at_release i s)) j = escrows (at_release i s) j"
    unfolding grows_def by auto
  have "escrows s' j = escrows s j" if "j \<notin> set ys" "\<not> isActive (escrows s j)" for j
    using that g(3) [of j] release(3) unfolding release(8) by auto
  with g(1,2) show ?thesis unfolding extends_def release(8) by auto
next
  case (return caller i cs)
  have "grows (at_return i s) (fold (after H now) cs (at_return i s))"
    by (rule callbacks_grows) simp
  then obtain ys where
    g: "finalised_ids (fold (after H now) cs (at_return i s)) = finalised_ids s"
       "created_ids (fold (after H now) cs (at_return i s)) = created_ids s @ ys"
       "\<And>j. j \<notin> set ys \<Longrightarrow> escrows (fold (after H now) cs (at_return i s)) j = escrows (at_return i s) j"
    unfolding grows_def by auto
  have "escrows s' j = escrows s j" if "j \<notin> set ys" "\<not> isActive (escrows s j)" for j
    using that g(3) [of j] return(3) unfolding return(8) by auto
  with g(1,2) show ?thesis unfolding extends_def return(8) by auto
qed

lemma unlocked_exec:
  assumes "exec H now c s = Inr (r, s')" "\<not> locked s"
  shows "\<not> locked s'"
  using assms by (cases rule: exec_cases) (auto dest: createEscrow_locked)

lemma finalises_exec:
  assumes "exec H now c s = Inr (r, s')" "finalises i c"
  shows "i \<in> set (finalised_ids s')" "isActive (escrows s i)"
  using assms by (cases rule: exec_cases; simp)+

lemma finalises_exec_log:
  assumes "exec H now c s = Inr (r, s')" "finalises i c"
  shows "finalised_ids s' = finalised_ids s @ [i]"
  using assms
proof (cases rule: exec_cases)
  case (create caller v rc k)
  with assms(2) show ?thesis by simp
next
  case (release caller k cs)
  have "grows (at_release k s) (fold (after H now) cs (at_release k s))"
    by (rule callbacks_grows) simp
  with release(1) assms(2) show ?thesis unfolding grows_def release(8) by simp
next
  case (return caller k cs)
  have "grows (at_return k s) (fold (after H now) cs (at_return k s))"
    by (rule callbacks_grows) simp
  with return(1) assms(2) show ?thesis unfolding grows_def return(8) by simp
qed

lemma finalised_once_exec:
  assumes e: "exec H now c s = Inr (r, s')" and w: "well_formed s" and f: "finalised_once s"
  shows "finalised_once s'"
  unfolding finalised_once_def
proof (intro impI)
  assume d': "distinct (created_ids s')"
  note x = extends_created [OF extends_exec [OF e] d']
  from f x(1) have fs: "distinct (finalised_ids s)"
    "\<And>j. j \<in> set (finalised_ids s) \<Longrightarrow> j \<in> set (created_ids s) \<and> \<not> isActive (escrows s j)"
    unfolding finalised_once_def by auto
  have old: "j \<in> set (created_ids s') \<and> \<not> isActive (escrows s' j)" if "j \<in> set (finalised_ids s)" for j
    using fs(2) [OF that] x(2) [of j] x(4) [of j] by simp
  from e show "distinct (finalised_ids s') \<and>
      (\<forall>i\<in>set (finalised_ids s'). i \<in> set (created_ids s') \<and> \<not> isActive (escrows s' i))"
  proof (cases rule: exec_cases)
    case (create caller v rc i)
    with createEscrow_ids(2) [OF create(2)] fs(1) old show ?thesis by simp
  next
    case (release caller i cs)
    have g: "grows (at_release i s) (fold (after H now) cs (at_release i s))"
      by (rule callbacks_grows) simp
    then have fin: "finalised_ids s' = finalised_ids s @ [i]"
      unfolding grows_def release(8) by simp
    from release(3) fs(2) [of i] have ni: "i \<notin> set (finalised_ids s)" by blast
    from w release(3) have ci: "i \<in> set (created_ids s)" by (rule well_formed_created)
    from g obtain ys where
      ys: "created_ids s' = created_ids s @ ys"
          "\<And>j. j \<notin> set ys \<Longrightarrow> escrows s' j = escrows (at_release i s) j"
      unfolding grows_def release(8) by auto
    from ys(1) d' ci have "i \<notin> set ys" by auto
    from ys(2) [OF this] have "\<not> isActive (escrows s' i)" by simp
    with ci x(2) fin fs(1) ni old show ?thesis by auto
  next
    case (return caller i cs)
    have g: "grows (at_return i s) (fold (after H now) cs (at_return i s))"
      by (rule callbacks_grows) simp
    then have fin: "finalised_ids s' = finalised_ids s @ [i]"
      unfolding grows_def return(8) by simp
    from return(3) fs(2) [of i] have ni: "i \<notin> set (finalised_ids s)" by blast
    from w return(3) have ci: "i \<in> set (created_ids s)" by (rule well_formed_created)
    from g obtain ys where
      ys: "created_ids s' = created_ids s @ ys"
          "\<And>j. j \<notin> set ys \<Longrightarrow> escrows s' j = escrows (at_return i s) j"
      unfolding grows_def return(8) by auto
    from ys(1) d' ci have "i \<notin> set ys" by auto
    from ys(2) [OF this] have "\<not> isActive (escrows s' i)" by simp
    with ci x(2) fin fs(1) ni old show ?thesis by auto
  qed
qed

lemma run_induct:
  assumes "P s" and "\<And>now c t r t'. P t \<Longrightarrow> exec H now c t = Inr (r, t') \<Longrightarrow> P t'"
  shows "P (run H txs s)"
  using assms(1)
proof (induction txs arbitrary: s)
  case Nil
  then show ?case by simp
next
  case (Cons tx txs)
  obtain now c where tx: "tx = (now, c)" by (cases tx)
  have "P (after H now c s)"
    using Cons.prems assms(2) [of s now c] by (auto simp: after_def split: sum.splits)
  then show ?case unfolding tx by (simp add: Cons.IH)
qed

lemma extends_run: "extends s (run H txs s)"
  by (rule run_induct [where P = "extends s"]) (blast intro: extends_refl extends_trans extends_exec)+

lemma consistent_deployed: "consistent deployed"
  by (simp add: consistent_def well_formed_def finalised_once_def created_ids_def
        finalised_ids_def deployed_def)

lemma consistent_exec:
  assumes "consistent s" "exec H now c s = Inr (r, s')"
  shows "consistent s'"
  using assms(1) well_formed_exec [OF assms(2)] unlocked_exec [OF assms(2)]
    finalised_once_exec [OF assms(2)]
  unfolding consistent_def by simp

lemma consistent_run: "consistent s \<Longrightarrow> consistent (run H txs s)"
  by (rule run_induct [where P = consistent]) (blast intro: consistent_exec)+

lemma count_list_distinct:
  "distinct xs \<Longrightarrow> count_list xs x = (if x \<in> set xs then 1 else 0)"
  by (induction xs) auto

section \<open>The counter in the hashed inputs\<close>

lemma preimages_from_append:
  "preimages_from k (es @ es') =
     preimages_from k es @ preimages_from (k + length (concat (map created_of es))) es'"
proof (induction es arbitrary: k)
  case Nil
  show ?case by simp
next
  case (Cons e es)
  show ?case by (cases e) (simp_all add: Cons.IH)
qed

lemma length_preimages_from:
  "length (preimages_from k es) = length (concat (map created_of es))"
proof (induction es arbitrary: k)
  case Nil
  show ?case by simp
next
  case (Cons e es)
  show ?case by (cases e) (simp_all add: Cons.IH)
qed

lemma preimages_simps [simp]:
  "preimages (at_release i s) = preimages s"
  "preimages (at_return i s) = preimages s"
  "preimages (t\<lparr>locked := b, logs := logs t @ [EscrowReleased i p v]\<rparr>) = preimages t"
  "preimages (t\<lparr>locked := b, logs := logs t @ [EscrowReturned i p v]\<rparr>) = preimages t"
  by (simp_all add: preimages_def preimages_from_append)

lemma counted_create:
  assumes c: "counted H s" and e: "createEscrow H caller v now rc s = Inr (i, s')"
  shows "counted H s'"
proof -
  from c have ids: "created_ids s = map H (preimages s)"
    and cnt: "map counter_digest (preimages s) = map of_nat [0..<unat (escrowCount s)]"
    by (simp_all add: counted_def)
  from cnt have "length (preimages s) = unat (escrowCount s)"
    by (metis length_map length_upt minus_nat.diff_0)
  then have len: "length (concat (map created_of (logs s))) = unat (escrowCount s)"
    by (simp add: preimages_def length_preimages_from)
  from e have i: "i = H (encodePacked caller rc v now (escrowCount s))"
    and l: "logs s' = logs s @ [EscrowCreated i caller rc v (now + 300)]"
    and n: "escrowCount s' = escrowCount s + 1" and b: "unat (escrowCount s) + 1 < 2 ^ 256"
    by (simp_all add: createEscrow_Inr_iff)
  from b have u: "unat (escrowCount s') = Suc (unat (escrowCount s))"
    unfolding n by (simp add: unat_word_ariths)
  have p: "preimages s' = preimages s @ [encodePacked caller rc v now (escrowCount s)]"
    by (simp add: preimages_def l preimages_from_append len RETURN_WINDOW_def)
  show ?thesis
    unfolding counted_def
    by (simp add: p u createEscrow_ids(1) [OF e] ids cnt i counter_digest_encodePacked)
qed

lemma counted_callbacks:
  assumes "locked s" "counted H s"
  shows "counted H (fold (after H now) cs s)"
proof -
  have "counted H (fold (after H now) cs s) \<and> locked (fold (after H now) cs s)"
    using assms by (rule callbacks_induct) (rule counted_create)
  then show ?thesis ..
qed

lemma counted_exec:
  assumes "exec H now c s = Inr (r, s')" "counted H s"
  shows "counted H s'"
  using assms(1)
proof (cases rule: exec_cases)
  case (create caller v rc i)
  with assms(2) show ?thesis by (blast intro: counted_create)
next
  case (release caller i cs)
  from assms(2) have "counted H (at_release i s)" by (simp add: counted_def)
  then have "counted H (fold (after H now) cs (at_release i s))"
    by (intro counted_callbacks) simp_all
  then show ?thesis unfolding release(8) by (simp add: counted_def)
next
  case (return caller i cs)
  from assms(2) have "counted H (at_return i s)" by (simp add: counted_def)
  then have "counted H (fold (after H now) cs (at_return i s))"
    by (intro counted_callbacks) simp_all
  then show ?thesis unfolding return(8) by (simp add: counted_def)
qed

lemma counted_deployed: "counted H deployed"
  by (simp add: counted_def created_ids_def preimages_def deployed_def)

lemma counted_run: "counted H s \<Longrightarrow> counted H (run H txs s)"
  by (rule run_induct [where P = "counted H"]) (blast intro: counted_exec)+

lemma distinct_counters:
  "distinct (map of_nat [0..<unat (c::uint256)] :: uint256 list)"
proof -
  have "inj_on (of_nat :: nat \<Rightarrow> uint256) {0..<unat c}"
  proof (rule inj_on_inverseI [where g = unat])
    fix x assume "x \<in> {0..<unat c}"
    then have "x < unat c" by simp
    also have "unat c < 2 ^ LENGTH(256)" by (rule unsigned_less)
    finally show "unat (of_nat x :: uint256) = x" by (simp add: unat_of_nat)
  qed
  then show ?thesis by (simp add: distinct_map)
qed

lemma counted_distinct:
  assumes "counted H s"
  shows "distinct (preimages s)"
    and "inj_on H (set (preimages s)) \<Longrightarrow> distinct (created_ids s)"
proof -
  from assms have "distinct (map counter_digest (preimages s))"
    by (simp add: counted_def distinct_counters)
  then show d: "distinct (preimages s)" by (simp add: distinct_map)
  assume "inj_on H (set (preimages s))"
  with d assms show "distinct (created_ids s)" by (simp add: counted_def distinct_map)
qed

lemmas eval_defs = after_def createEscrow_def releaseEscrow_def returnEscrow_def nonReentrant_def
  escrowExists_def onlyParties_def deployed_def RETURN_WINDOW_def Let_def
  counter_digest_encodePacked created_ids_def finalised_ids_def

section \<open>Reachable storages\<close>

lemma reachable_consistent: "consistent (run H txs deployed)" "counted H (run H txs deployed)"
  by (simp_all add: consistent_run consistent_deployed counted_run counted_deployed)

lemma well_formed_flags:
  "well_formed s \<Longrightarrow> i \<in> set (created_ids s) \<Longrightarrow> flags_consistent (escrows s i)"
  unfolding well_formed_def flags_consistent_def by (erule allE [of _ i]) simp

lemma well_formed_active:
  "well_formed s \<Longrightarrow> isActive (escrows s i) \<Longrightarrow>
   \<not> isReleased (escrows s i) \<and> \<not> isReturned (escrows s i)"
  unfolding well_formed_def by (erule allE [of _ i]) (auto simp: zeroTransaction_def split: if_splits)

lemma already_errors_unreachable:
  assumes "well_formed s"
  shows "exec H now c s \<noteq> Inl AlreadyReleased \<and> exec H now c s \<noteq> Inl AlreadyReturned"
proof (cases c)
  case (CreateEscrow caller v rc)
  then show ?thesis
    by (auto simp: createEscrow_def Let_def split: sum.splits if_splits)
next
  case (ReleaseEscrow caller i cs ok)
  with well_formed_active [OF assms, of i] show ?thesis
    by (auto simp: releaseEscrow_def nonReentrant_def escrowExists_def onlyParties_def Let_def
          split: sum.splits option.splits if_splits)
next
  case (ReturnEscrow caller i cs ok)
  with well_formed_active [OF assms, of i] show ?thesis
    by (auto simp: returnEscrow_def nonReentrant_def escrowExists_def Let_def
          split: sum.splits option.splits if_splits)
qed

section \<open>Re-entrancy guard\<close>

text \<open>
  C3, as amended. While the guard flag \<open>_locked\<close> is set, \<open>releaseEscrow\<close> and \<open>returnEscrow\<close>
  are rejected with the guard's error, whatever their arguments and whatever the payee would
  do, and the storage stays as it is. \<open>createEscrow\<close> carries no guard: the flag has no
  influence on whether it is accepted, and it leaves the flag as it finds it.
\<close>

theorem guard_rejects_release_and_return:
  assumes "locked st"
  shows "releaseEscrow call caller now i st = Inl ReentrantCall \<and>
         returnEscrow call caller now i st = Inl ReentrantCall \<and>
         exec H now (ReleaseEscrow caller i cs ok) st = Inl ReentrantCall \<and>
         exec H now (ReturnEscrow caller i cs ok) st = Inl ReentrantCall \<and>
         after H now (ReleaseEscrow caller i cs ok) st = st \<and>
         after H now (ReturnEscrow caller i cs ok) st = st \<and>
         isl (createEscrow H caller v now r st) = isl (createEscrow H caller v now r (st\<lparr>locked := False\<rparr>))"
  using assms
  by (simp add: after_def releaseEscrow_locked returnEscrow_locked createEscrow_def Let_def)

theorem guard_rejects_release_and_return_witness:
  "locked (at_release 0 (after counter_digest 1000 (CreateEscrow 1 10 2) deployed)) \<and>
   exec counter_digest 1300 (ReleaseEscrow 2 0 [] True)
     (at_release 0 (after counter_digest 1000 (CreateEscrow 1 10 2) deployed)) = Inl ReentrantCall \<and>
   exec counter_digest 1300 (ReturnEscrow 1 0 [] True)
     (at_release 0 (after counter_digest 1000 (CreateEscrow 1 10 2) deployed)) = Inl ReentrantCall"
  using guard_rejects_release_and_return
    [of "at_release 0 (after counter_digest 1000 (CreateEscrow 1 10 2) deployed)"
        _ 2 1300 0 counter_digest "[]" True]
    guard_rejects_release_and_return
    [of "at_release 0 (after counter_digest 1000 (CreateEscrow 1 10 2) deployed)"
        _ 1 1300 0 counter_digest "[]" True]
  by (simp add: at_release_def)

text \<open>
  The claim as stated fails for \<open>createEscrow\<close>. With the flag set, a creation is accepted;
  and a payee that calls \<open>createEscrow\<close> while the release that pays it is in progress gets a
  second escrow stored (the counter ends at 2).
\<close>

theorem createEscrow_not_guarded_counterexample:
  "locked (deployed\<lparr>locked := True\<rparr>) \<and>
   \<not> isl (createEscrow counter_digest 1 10 1000 2 (deployed\<lparr>locked := True\<rparr>)) \<and>
   escrowCount (after counter_digest 1300 (ReleaseEscrow 2 0 [CreateEscrow 2 5 3] True)
                  (after counter_digest 1000 (CreateEscrow 1 10 2) deployed)) = 2"
  by (simp add: after_def createEscrow_def releaseEscrow_def nonReentrant_def escrowExists_def
        onlyParties_def deployed_def RETURN_WINDOW_def Let_def counter_digest_encodePacked)

section \<open>The time window\<close>

text \<open>
  C4. Window disjointness. Whatever the payee does, a \<open>releaseEscrow\<close> that does not revert
  was called with \<open>block.timestamp \<ge> releaseTime\<close>, and a \<open>returnEscrow\<close> that does not revert
  was called with \<open>block.timestamp < releaseTime\<close>. At the instant
  \<open>block.timestamp = releaseTime\<close> of an active record (guard free), \<open>canRelease\<close> holds and
  \<open>canReturn\<close> does not, the sender's \<open>returnEscrow\<close> is rejected with the window error
  ("Return window expired"), and the recipient's \<open>releaseEscrow\<close> goes through as soon as the
  transfer reports success.
\<close>

theorem window_disjointness:
  "(\<not> isl (releaseEscrow call caller now i st) \<longrightarrow> now \<ge> releaseTime (escrows st i)) \<and>
   (\<not> isl (returnEscrow call caller now i st) \<longrightarrow> now < releaseTime (escrows st i)) \<and>
   (now = releaseTime (escrows st i) \<longrightarrow>
      \<not> locked st \<and> isActive (escrows st i) \<and> \<not> isReleased (escrows st i) \<and>
      \<not> isReturned (escrows st i) \<longrightarrow>
      canRelease now i st \<and> \<not> canReturn now i st \<and>
      returnEscrow call (sender (escrows st i)) now i st = Inl ReturnWindowExpired \<and>
      (call (recipient (escrows st i)) (amount (escrows st i)) (at_release i st) \<noteq> None \<longrightarrow>
         \<not> isl (releaseEscrow call (recipient (escrows st i)) now i st)))"
proof (intro conjI impI)
  assume "\<not> isl (releaseEscrow call caller now i st)"
  then obtain st' where "releaseEscrow call caller now i st = Inr st'"
    by (cases "releaseEscrow call caller now i st") auto
  then show "releaseTime (escrows st i) \<le> now"
    by (simp add: releaseEscrow_Inr_iff)
next
  assume "\<not> isl (returnEscrow call caller now i st)"
  then obtain st' where "returnEscrow call caller now i st = Inr st'"
    by (cases "returnEscrow call caller now i st") auto
  then show "now < releaseTime (escrows st i)"
    by (simp add: returnEscrow_Inr_iff)
next
  assume "now = releaseTime (escrows st i)"
    and "\<not> locked st \<and> isActive (escrows st i) \<and> \<not> isReleased (escrows st i) \<and>
      \<not> isReturned (escrows st i)"
  then show "canRelease now i st" "\<not> canReturn now i st"
    "returnEscrow call (sender (escrows st i)) now i st = Inl ReturnWindowExpired"
    by (simp_all add: canRelease_def canReturn_def returnEscrow_def nonReentrant_def escrowExists_def)
next
  assume a: "now = releaseTime (escrows st i)"
    and b: "\<not> locked st \<and> isActive (escrows st i) \<and> \<not> isReleased (escrows st i) \<and>
      \<not> isReturned (escrows st i)"
    and c: "call (recipient (escrows st i)) (amount (escrows st i)) (at_release i st) \<noteq> None"
  from c obtain st3 where
    "call (recipient (escrows st i)) (amount (escrows st i)) (at_release i st) = Some st3" by auto
  with a b have "\<exists>st'. releaseEscrow call (recipient (escrows st i)) now i st = Inr st'"
    by (simp add: releaseEscrow_Inr_iff)
  then show "\<not> isl (releaseEscrow call (recipient (escrows st i)) now i st)" by auto
qed

theorem window_disjointness_witness:
  "\<not> isl (releaseEscrow (\<lambda>p a s. Some s) 2 1300 0 (after counter_digest 1000 (CreateEscrow 1 10 2) deployed)) \<and>
   releaseTime (escrows (after counter_digest 1000 (CreateEscrow 1 10 2) deployed) 0) = 1300 \<and>
   \<not> locked (after counter_digest 1000 (CreateEscrow 1 10 2) deployed) \<and>
   isActive (escrows (after counter_digest 1000 (CreateEscrow 1 10 2) deployed) 0) \<and>
   \<not> isReleased (escrows (after counter_digest 1000 (CreateEscrow 1 10 2) deployed) 0) \<and>
   \<not> isReturned (escrows (after counter_digest 1000 (CreateEscrow 1 10 2) deployed) 0) \<and>
   sender (escrows (after counter_digest 1000 (CreateEscrow 1 10 2) deployed) 0) = 1 \<and>
   recipient (escrows (after counter_digest 1000 (CreateEscrow 1 10 2) deployed) 0) = 2 \<and>
   canRelease 1300 0 (after counter_digest 1000 (CreateEscrow 1 10 2) deployed) \<and>
   \<not> canReturn 1300 0 (after counter_digest 1000 (CreateEscrow 1 10 2) deployed) \<and>
   \<not> isl (returnEscrow (\<lambda>p a s. Some s) 1 1299 0 (after counter_digest 1000 (CreateEscrow 1 10 2) deployed)) \<and>
   returnEscrow (\<lambda>p a s. Some s) 1 1300 0 (after counter_digest 1000 (CreateEscrow 1 10 2) deployed)
     = Inl ReturnWindowExpired \<and>
   releaseEscrow (\<lambda>p a s. Some s) 2 1299 0 (after counter_digest 1000 (CreateEscrow 1 10 2) deployed)
     = Inl StillInReturnWindow"
  using window_disjointness [of "\<lambda>p a s. Some s" 2 1300 0
          "after counter_digest 1000 (CreateEscrow 1 10 2) deployed"]
        window_disjointness [of "\<lambda>p a s. Some s" 1 1299 0
          "after counter_digest 1000 (CreateEscrow 1 10 2) deployed"]
  by (simp add: after_def createEscrow_def releaseEscrow_def returnEscrow_def nonReentrant_def
        escrowExists_def onlyParties_def deployed_def RETURN_WINDOW_def Let_def
        counter_digest_encodePacked at_release_def canRelease_def canReturn_def)

section \<open>Failure of the transfer\<close>

text \<open>
  C2. Atomic rollback. When the external call of \<open>releaseEscrow\<close> (respectively
  \<open>returnEscrow\<close>), made on the storage in which the flags are already written, reports
  failure, the operation ends in an error: it reverts, so the storage, and with it the three
  flags of the record, is the one from before the call. When every check before the transfer
  passes, the error is the one of the transfer ("Transfer failed", "Return failed"). A payee
  that reports failure (\<open>ok = False\<close>) makes the whole call fail, whatever calls it made
  before.
\<close>

theorem transfer_failure_rolls_back:
  "(call (recipient (escrows st i)) (amount (escrows st i)) (at_release i st) = None \<longrightarrow>
      isl (releaseEscrow call caller now i st) \<and>
      (\<not> locked st \<and> canRelease now i st \<and> caller = recipient (escrows st i) \<longrightarrow>
         releaseEscrow call caller now i st = Inl TransferFailed)) \<and>
   (call (sender (escrows st i)) (amount (escrows st i)) (at_return i st) = None \<longrightarrow>
      isl (returnEscrow call caller now i st) \<and>
      (\<not> locked st \<and> canReturn now i st \<and> caller = sender (escrows st i) \<longrightarrow>
         returnEscrow call caller now i st = Inl ReturnFailed)) \<and>
   isl (exec H now (ReleaseEscrow caller i cs False) st) \<and>
   isl (exec H now (ReturnEscrow caller i cs False) st) \<and>
   after H now (ReleaseEscrow caller i cs False) st = st \<and>
   after H now (ReturnEscrow caller i cs False) st = st"
proof -
  have r: "releaseEscrow c caller now i st = Inr st' \<Longrightarrow>
           c (recipient (escrows st i)) (amount (escrows st i)) (at_release i st) \<noteq> None" for c st'
    by (auto simp: releaseEscrow_Inr_iff)
  have t: "returnEscrow c caller now i st = Inr st' \<Longrightarrow>
           c (sender (escrows st i)) (amount (escrows st i)) (at_return i st) \<noteq> None" for c st'
    by (auto simp: returnEscrow_Inr_iff)
  have 1: "c (recipient (escrows st i)) (amount (escrows st i)) (at_release i st) = None \<Longrightarrow>
           isl (releaseEscrow c caller now i st)" for c
    using r [of c] by (cases "releaseEscrow c caller now i st") auto
  have 2: "c (sender (escrows st i)) (amount (escrows st i)) (at_return i st) = None \<Longrightarrow>
           isl (returnEscrow c caller now i st)" for c
    using t [of c] by (cases "returnEscrow c caller now i st") auto
  have 3: "call (recipient (escrows st i)) (amount (escrows st i)) (at_release i st) = None \<Longrightarrow>
           \<not> locked st \<and> canRelease now i st \<and> caller = recipient (escrows st i) \<Longrightarrow>
           releaseEscrow call caller now i st = Inl TransferFailed"
    by (simp add: releaseEscrow_def nonReentrant_def escrowExists_def onlyParties_def
          canRelease_def at_release_def Let_def)
  have 4: "call (sender (escrows st i)) (amount (escrows st i)) (at_return i st) = None \<Longrightarrow>
           \<not> locked st \<and> canReturn now i st \<and> caller = sender (escrows st i) \<Longrightarrow>
           returnEscrow call caller now i st = Inl ReturnFailed"
    by (simp add: returnEscrow_def nonReentrant_def escrowExists_def
          canReturn_def at_return_def Let_def)
  have 5: "isl (exec H now (ReleaseEscrow caller i cs False) st)"
    using 1 [of "\<lambda>p a s. None"]
    by (cases "releaseEscrow (\<lambda>p a s. None) caller now i st") auto
  have 6: "isl (exec H now (ReturnEscrow caller i cs False) st)"
    using 2 [of "\<lambda>p a s. None"]
    by (cases "returnEscrow (\<lambda>p a s. None) caller now i st") auto
  from 5 6 have 7: "after H now (ReleaseEscrow caller i cs False) st = st"
    "after H now (ReturnEscrow caller i cs False) st = st"
    unfolding after_def by (auto split: sum.splits)
  from 1 2 3 4 5 6 7 show ?thesis by blast
qed

theorem transfer_failure_rolls_back_witness:
  "(\<lambda>p a s. None :: Escrow option) 2 10 (at_release 0 (after counter_digest 1000 (CreateEscrow 1 10 2) deployed)) = None \<and>
   \<not> locked (after counter_digest 1000 (CreateEscrow 1 10 2) deployed) \<and>
   sender (escrows (after counter_digest 1000 (CreateEscrow 1 10 2) deployed) 0) = 1 \<and>
   recipient (escrows (after counter_digest 1000 (CreateEscrow 1 10 2) deployed) 0) = 2 \<and>
   amount (escrows (after counter_digest 1000 (CreateEscrow 1 10 2) deployed) 0) = 10 \<and>
   canRelease 1300 0 (after counter_digest 1000 (CreateEscrow 1 10 2) deployed) \<and>
   releaseEscrow (\<lambda>p a s. None) 2 1300 0 (after counter_digest 1000 (CreateEscrow 1 10 2) deployed)
     = Inl TransferFailed \<and>
   canReturn 1100 0 (after counter_digest 1000 (CreateEscrow 1 10 2) deployed) \<and>
   returnEscrow (\<lambda>p a s. None) 1 1100 0 (after counter_digest 1000 (CreateEscrow 1 10 2) deployed)
     = Inl ReturnFailed \<and>
   isActive (escrows (after counter_digest 1300 (ReleaseEscrow 2 0 [] False)
                        (after counter_digest 1000 (CreateEscrow 1 10 2) deployed)) 0)"
  using transfer_failure_rolls_back [of "\<lambda>p a s. None"
          "after counter_digest 1000 (CreateEscrow 1 10 2) deployed" 0 2 1300 counter_digest "[]"]
        transfer_failure_rolls_back [of "\<lambda>p a s. None"
          "after counter_digest 1000 (CreateEscrow 1 10 2) deployed" 0 1 1100 counter_digest "[]"]
  by (simp add: after_def createEscrow_def deployed_def RETURN_WINDOW_def Let_def
        counter_digest_encodePacked canRelease_def canReturn_def)

section \<open>Creation\<close>

text \<open>
  C7, as amended. \<open>createEscrow\<close> is rejected, with no change of the storage, when the amount
  is 0, when the recipient is the zero address, and when the recipient is the caller.
  Otherwise, provided neither \<open>escrowCount + 1\<close> nor \<open>block.timestamp + 300\<close> exceeds the
  range of \<open>uint256\<close>, it stores under the new identifier the record with
  \<open>createdAt = block.timestamp\<close>, \<open>releaseTime = block.timestamp + 300\<close>, both flags false and
  \<open>isActive\<close> true, leaves every other record alone, appends the identifier to the caller's
  and to the recipient's sequence (and to no other), and returns the identifier. When one of
  the two sums overflows, the call panics and reverts.
\<close>

theorem createEscrow_effect:
  "(v = 0 \<longrightarrow> createEscrow H caller v now r st = Inl AmountNotPositive) \<and>
   (v \<noteq> 0 \<and> r = 0 \<longrightarrow> createEscrow H caller v now r st = Inl InvalidRecipient) \<and>
   (v \<noteq> 0 \<and> r \<noteq> 0 \<and> r = caller \<longrightarrow> createEscrow H caller v now r st = Inl CannotSendToYourself) \<and>
   (v = 0 \<or> r = 0 \<or> r = caller \<longrightarrow> after H now (CreateEscrow caller v r) st = st) \<and>
   (v \<noteq> 0 \<and> r \<noteq> 0 \<and> r \<noteq> caller \<and>
    unat (escrowCount st) + 1 < 2 ^ 256 \<and> unat now + 300 < 2 ^ 256 \<longrightarrow>
      (\<exists>i st'. createEscrow H caller v now r st = Inr (i, st') \<and>
         i = H (encodePacked caller r v now (escrowCount st)) \<and>
         escrows st' i =
           \<lparr>sender = caller, recipient = r, amount = v, createdAt = now,
            releaseTime = now + 300, isReleased = False, isReturned = False, isActive = True\<rparr> \<and>
         unat (releaseTime (escrows st' i)) = unat now + 300 \<and>
         (\<forall>j. j \<noteq> i \<longrightarrow> escrows st' j = escrows st j) \<and>
         userEscrows st' caller = userEscrows st caller @ [i] \<and>
         userEscrows st' r = userEscrows st r @ [i] \<and>
         (\<forall>u. u \<noteq> caller \<and> u \<noteq> r \<longrightarrow> userEscrows st' u = userEscrows st u) \<and>
         escrowCount st' = escrowCount st + 1 \<and> locked st' = locked st \<and>
         logs st' = logs st @ [EscrowCreated i caller r v (now + 300)])) \<and>
   (v \<noteq> 0 \<and> r \<noteq> 0 \<and> r \<noteq> caller \<and>
    \<not> (unat (escrowCount st) + 1 < 2 ^ 256 \<and> unat now + 300 < 2 ^ 256) \<longrightarrow>
      createEscrow H caller v now r st = Inl ArithmeticOverflow)"
proof -
  have u: "unat now + 300 < 2 ^ 256 \<Longrightarrow> unat (now + 300) = unat now + 300"
    by (simp add: unat_word_ariths)
  have pos: "v \<noteq> 0 \<Longrightarrow> 0 < v" by (simp add: word_neq_0_conv)
  show ?thesis
    using u pos
    by (auto simp: createEscrow_Inr_iff after_def createEscrow_def Let_def RETURN_WINDOW_def
          split: sum.splits)
qed

theorem createEscrow_effect_witness:
  "(10::uint256) \<noteq> 0 \<and> (2::address) \<noteq> 0 \<and> (2::address) \<noteq> 1 \<and>
   unat (escrowCount deployed) + 1 < 2 ^ 256 \<and> unat (1000::uint256) + 300 < 2 ^ 256 \<and>
   createEscrow counter_digest 1 10 1000 2 deployed =
     Inr (0, deployed\<lparr>escrowCount := 1,
              escrows := (escrows deployed)(0 :=
                \<lparr>sender = 1, recipient = 2, amount = 10, createdAt = 1000,
                 releaseTime = 1300, isReleased = False, isReturned = False, isActive = True\<rparr>),
              userEscrows := (userEscrows deployed)(1 := [0], 2 := [0]),
              logs := [EscrowCreated 0 1 2 10 1300]\<rparr>) \<and>
   createEscrow counter_digest 1 0 1000 2 deployed = Inl AmountNotPositive \<and>
   createEscrow counter_digest 1 10 1000 0 deployed = Inl InvalidRecipient \<and>
   createEscrow counter_digest 1 10 1000 1 deployed = Inl CannotSendToYourself"
  using createEscrow_effect [of 10 counter_digest 1 1000 2 deployed]
        createEscrow_effect [of 0 counter_digest 1 1000 2 deployed]
        createEscrow_effect [of 10 counter_digest 1 1000 0 deployed]
        createEscrow_effect [of 10 counter_digest 1 1000 1 deployed]
  by (simp add: createEscrow_def deployed_def RETURN_WINDOW_def Let_def counter_digest_encodePacked)

text \<open>
  The claim as stated promises a stored record whenever the three input checks pass. At the
  largest timestamp the sum \<open>block.timestamp + RETURN_WINDOW\<close> overflows, and the call
  reverts although amount and recipient are valid.
\<close>

theorem createEscrow_overflow_counterexample:
  "(10::uint256) \<noteq> 0 \<and> (2::address) \<noteq> 0 \<and> (2::address) \<noteq> 1 \<and>
   createEscrow counter_digest 1 10 (- 1) 2 deployed = Inl ArithmeticOverflow \<and>
   after counter_digest (- 1) (CreateEscrow 1 10 2) deployed = deployed"
  by (simp add: after_def createEscrow_def deployed_def RETURN_WINDOW_def Let_def
        counter_digest_encodePacked unsigned_minus_1_eq_mask mask_eq_exp_minus_1)

section \<open>Uniqueness of identifiers\<close>

text \<open>
  C6. Uniqueness. In every storage reachable from deployment by any run (creations,
  releases and returns, with any callbacks), the identifiers returned by the successful
  creations are the digests of pairwise distinct inputs: the inputs differ in their counter
  field, also when sender, recipient, amount and timestamp repeat. Hence the identifiers are
  pairwise distinct as soon as \<open>keccak256\<close> does not collide on these inputs. The created
  identifiers of the log are the returned ones: a successful \<open>createEscrow\<close> returns the digest
  of its input and appends it to them.
\<close>

theorem created_ids_pairwise_distinct:
  "created_ids (run H txs deployed) = map H (preimages (run H txs deployed)) \<and>
   distinct (preimages (run H txs deployed)) \<and>
   (inj_on H (set (preimages (run H txs deployed))) \<longrightarrow>
      distinct (created_ids (run H txs deployed))) \<and>
   (createEscrow H caller v now rc st = Inr (k, st') \<longrightarrow>
      created_ids st' = created_ids st @ [k] \<and>
      k = H (encodePacked caller rc v now (escrowCount st)))"
proof -
  have c: "counted H (run H txs deployed)"
    by (rule counted_run) (rule counted_deployed)
  have "created_ids st' = created_ids st @ [k] \<and>
        k = H (encodePacked caller rc v now (escrowCount st))"
    if "createEscrow H caller v now rc st = Inr (k, st')"
    using that createEscrow_ids(1) [OF that] by (simp add: createEscrow_Inr_iff)
  with c counted_distinct [OF c] show ?thesis by (simp add: counted_def)
qed

theorem created_ids_pairwise_distinct_witness:
  "inj_on counter_digest
     (set (preimages (run counter_digest [(1000, CreateEscrow 1 10 2), (1000, CreateEscrow 1 10 2)] deployed))) \<and>
   created_ids (run counter_digest [(1000, CreateEscrow 1 10 2), (1000, CreateEscrow 1 10 2)] deployed) = [0, 1] \<and>
   distinct (created_ids (run counter_digest [(1000, CreateEscrow 1 10 2), (1000, CreateEscrow 1 10 2)] deployed)) \<and>
   createEscrow counter_digest 1 10 1000 2 (after counter_digest 1000 (CreateEscrow 1 10 2) deployed) =
     Inr (1, run counter_digest [(1000, CreateEscrow 1 10 2), (1000, CreateEscrow 1 10 2)] deployed) \<and>
   created_ids (after counter_digest 1000 (CreateEscrow 1 10 2) deployed) = [0]"
  using created_ids_pairwise_distinct [of counter_digest
      "[(1000, CreateEscrow 1 10 2), (1000, CreateEscrow 1 10 2)]" 1 10 1000 2
      "after counter_digest 1000 (CreateEscrow 1 10 2) deployed" 1
      "run counter_digest [(1000, CreateEscrow 1 10 2), (1000, CreateEscrow 1 10 2)] deployed"]
  by (auto simp: eval_defs preimages_def inj_on_def)

section \<open>Mutual exclusion of release and return\<close>

text \<open>
  C1. Mutual exclusion. Take any run from deployment, with any callbacks, and suppose
  \<open>keccak256\<close> does not collide on the inputs hashed by the creations of the run. Then the log
  holds at most one finalisation event (released or returned) for any identifier: at most
  one of \<open>releaseEscrow\<close> and \<open>returnEscrow\<close> ever succeeds on it. And once a release or a
  return of \<open>i\<close> has succeeded, then after any further transactions every release and every
  return of \<open>i\<close>, by any caller and at any time, is rejected with "Escrow does not exist" and
  leaves the storage as it is; the log holds exactly one finalisation of \<open>i\<close>. The log counts
  the successes: every successful release or return of \<open>i\<close> appends \<open>i\<close> to the finalised
  identifiers.
\<close>

theorem release_return_at_most_once:
  "(inj_on H (set (preimages (run H txs deployed))) \<longrightarrow>
      count_list (finalised_ids (run H txs deployed)) j \<le> 1) \<and>
   (exec H now c (run H txs1 deployed) = Inr (r, s2) \<and> finalises i c \<and> finalises i c' \<and>
    inj_on H (set (preimages (run H txs2 s2))) \<longrightarrow>
      exec H now' c' (run H txs2 s2) = Inl EscrowDoesNotExist \<and>
      after H now' c' (run H txs2 s2) = run H txs2 s2 \<and>
      count_list (finalised_ids (run H txs2 s2)) i = 1) \<and>
   (exec H now c st = Inr (r, st') \<and> finalises i c \<longrightarrow>
      finalised_ids st' = finalised_ids st @ [i])"
proof (intro conjI impI)
  assume "exec H now c st = Inr (r, st') \<and> finalises i c"
  then show "finalised_ids st' = finalised_ids st @ [i]"
    by (blast intro: finalises_exec_log)
next
  assume "inj_on H (set (preimages (run H txs deployed)))"
  with reachable_consistent(2) have "distinct (created_ids (run H txs deployed))"
    by (rule counted_distinct(2))
  with reachable_consistent(1) [of H txs] have "distinct (finalised_ids (run H txs deployed))"
    by (simp add: consistent_def finalised_once_def)
  then show "count_list (finalised_ids (run H txs deployed)) j \<le> 1"
    by (simp add: count_list_distinct)
next
  assume a: "exec H now c (run H txs1 deployed) = Inr (r, s2) \<and> finalises i c \<and> finalises i c' \<and>
    inj_on H (set (preimages (run H txs2 s2)))"
  let ?s3 = "run H txs2 s2"
  from a have e: "exec H now c (run H txs1 deployed) = Inr (r, s2)" and f: "finalises i c"
    and f': "finalises i c'" and inj: "inj_on H (set (preimages ?s3))" by simp_all
  from reachable_consistent(1) e have "consistent s2" by (rule consistent_exec)
  then have c3: "consistent ?s3" by (rule consistent_run)
  from e reachable_consistent(2) have "counted H s2" by (rule counted_exec)
  then have "counted H ?s3" by (rule counted_run)
  then have d: "distinct (created_ids ?s3)" using inj by (rule counted_distinct(2))
  from finalises_exec(1) [OF e f] have "i \<in> set (finalised_ids s2)" .
  with extends_created(3) [OF extends_run d] have m: "i \<in> set (finalised_ids ?s3)" .
  from c3 d have fo: "distinct (finalised_ids ?s3)"
    "\<forall>k\<in>set (finalised_ids ?s3). k \<in> set (created_ids ?s3) \<and> \<not> isActive (escrows ?s3 k)"
    by (simp_all add: consistent_def finalised_once_def)
  from fo(2) m have inact: "\<not> isActive (escrows ?s3 i)" by blast
  from c3 have ul: "\<not> locked ?s3" by (simp add: consistent_def)
  from f' ul inact show x: "exec H now' c' ?s3 = Inl EscrowDoesNotExist"
    by (cases c') (simp_all add: releaseEscrow_inactive returnEscrow_inactive)
  then show "after H now' c' ?s3 = ?s3" by (simp add: after_def)
  from fo(1) m show "count_list (finalised_ids ?s3) i = 1" by (simp add: count_list_distinct)
qed

theorem release_return_at_most_once_witness:
  "inj_on counter_digest (set (preimages
     (run counter_digest [(1000, CreateEscrow 1 10 2), (1100, ReturnEscrow 1 0 [] True)] deployed))) \<and>
   count_list (finalised_ids (run counter_digest [(1000, CreateEscrow 1 10 2), (1100, ReturnEscrow 1 0 [] True)] deployed)) 0 = 1 \<and>
   exec counter_digest 1100 (ReturnEscrow 1 0 [] True) (run counter_digest [(1000, CreateEscrow 1 10 2)] deployed)
     = Inr (None, run counter_digest [(1000, CreateEscrow 1 10 2), (1100, ReturnEscrow 1 0 [] True)] deployed) \<and>
   finalises 0 (ReturnEscrow 1 0 [] True) \<and> finalises 0 (ReleaseEscrow 2 0 [] True) \<and>
   inj_on counter_digest (set (preimages (run counter_digest [(1200, CreateEscrow 3 7 4)]
       (run counter_digest [(1000, CreateEscrow 1 10 2), (1100, ReturnEscrow 1 0 [] True)] deployed)))) \<and>
   exec counter_digest 1400 (ReleaseEscrow 2 0 [] True)
     (run counter_digest [(1200, CreateEscrow 3 7 4)]
       (run counter_digest [(1000, CreateEscrow 1 10 2), (1100, ReturnEscrow 1 0 [] True)] deployed))
     = Inl EscrowDoesNotExist \<and>
   finalised_ids (run counter_digest [(1000, CreateEscrow 1 10 2)] deployed) = [] \<and>
   finalised_ids (run counter_digest [(1000, CreateEscrow 1 10 2), (1100, ReturnEscrow 1 0 [] True)] deployed) = [0]"
  using release_return_at_most_once [of counter_digest
      "[(1000, CreateEscrow 1 10 2), (1100, ReturnEscrow 1 0 [] True)]" 0
      1100 "ReturnEscrow 1 0 [] True" "[(1000, CreateEscrow 1 10 2)]" None
      "run counter_digest [(1000, CreateEscrow 1 10 2), (1100, ReturnEscrow 1 0 [] True)] deployed"
      0 "ReleaseEscrow 2 0 [] True" "[(1200, CreateEscrow 3 7 4)]" 1400
      "run counter_digest [(1000, CreateEscrow 1 10 2)] deployed"
      "run counter_digest [(1000, CreateEscrow 1 10 2), (1100, ReturnEscrow 1 0 [] True)] deployed"]
  by (auto simp: eval_defs preimages_def inj_on_def)

section \<open>Lifecycle of a record\<close>

text \<open>
  C5. Record lifecycle. After any run from deployment, every created record satisfies
  \<open>\<not> (isReleased \<and> isReturned)\<close> and \<open>isActive = \<not> (isReleased \<or> isReturned)\<close>; the same holds
  in the storage a payee sees, and in the storage its callbacks leave, while a release or a
  return of an active record is in progress. Once the record of a created identifier is
  inactive, no further transactions change any of its fields, provided \<open>keccak256\<close> does not
  collide on the inputs hashed by the creations (a second creation under the same identifier
  would overwrite the record).
\<close>

theorem record_lifecycle:
  "(\<forall>i\<in>set (created_ids (run H txs deployed)). flags_consistent (escrows (run H txs deployed) i)) \<and>
   (isActive (escrows (run H txs deployed) j) \<longrightarrow>
      (\<forall>i\<in>set (created_ids (fold (after H now) cs (at_release j (run H txs deployed)))).
         flags_consistent (escrows (fold (after H now) cs (at_release j (run H txs deployed))) i)) \<and>
      (\<forall>i\<in>set (created_ids (fold (after H now) cs (at_return j (run H txs deployed)))).
         flags_consistent (escrows (fold (after H now) cs (at_return j (run H txs deployed))) i))) \<and>
   (i \<in> set (created_ids (run H txs deployed)) \<and> \<not> isActive (escrows (run H txs deployed) i) \<and>
    inj_on H (set (preimages (run H txs' (run H txs deployed)))) \<longrightarrow>
      escrows (run H txs' (run H txs deployed)) i = escrows (run H txs deployed) i)"
proof (intro conjI impI)
  let ?s = "run H txs deployed"
  have w: "well_formed ?s"
    using reachable_consistent(1) [of H txs] by (simp add: consistent_def)
  then show "\<forall>i\<in>set (created_ids ?s). flags_consistent (escrows ?s i)"
    by (blast intro: well_formed_flags)
  {
    assume act: "isActive (escrows ?s j)"
    from w act have "well_formed (at_release j ?s)" by (rule well_formed_at_release)
    then have "well_formed (fold (after H now) cs (at_release j ?s))"
      by (intro well_formed_callbacks) simp_all
    then show "\<forall>i\<in>set (created_ids (fold (after H now) cs (at_release j ?s))).
         flags_consistent (escrows (fold (after H now) cs (at_release j ?s)) i)"
      by (blast intro: well_formed_flags)
    from w act have "well_formed (at_return j ?s)" by (rule well_formed_at_return)
    then have "well_formed (fold (after H now) cs (at_return j ?s))"
      by (intro well_formed_callbacks) simp_all
    then show "\<forall>i\<in>set (created_ids (fold (after H now) cs (at_return j ?s))).
         flags_consistent (escrows (fold (after H now) cs (at_return j ?s)) i)"
      by (blast intro: well_formed_flags)
  }
  assume a: "i \<in> set (created_ids ?s) \<and> \<not> isActive (escrows ?s i) \<and>
    inj_on H (set (preimages (run H txs' ?s)))"
  then have inj: "inj_on H (set (preimages (run H txs' ?s)))" by (elim conjE)
  have "counted H (run H txs' ?s)" by (intro counted_run counted_deployed)
  then have "distinct (created_ids (run H txs' ?s))" using inj by (rule counted_distinct(2))
  from extends_created(4) [OF extends_run this] a
  show "escrows (run H txs' ?s) i = escrows ?s i" by simp
qed

theorem record_lifecycle_witness:
  "0 \<in> set (created_ids (run counter_digest [(1000, CreateEscrow 1 10 2), (1100, ReturnEscrow 1 0 [] True)] deployed)) \<and>
   flags_consistent (escrows (run counter_digest [(1000, CreateEscrow 1 10 2), (1100, ReturnEscrow 1 0 [] True)] deployed) 0) \<and>
   \<not> isActive (escrows (run counter_digest [(1000, CreateEscrow 1 10 2), (1100, ReturnEscrow 1 0 [] True)] deployed) 0) \<and>
   isReturned (escrows (run counter_digest [(1000, CreateEscrow 1 10 2), (1100, ReturnEscrow 1 0 [] True)] deployed) 0) \<and>
   \<not> isReleased (escrows (run counter_digest [(1000, CreateEscrow 1 10 2), (1100, ReturnEscrow 1 0 [] True)] deployed) 0) \<and>
   inj_on counter_digest (set (preimages (run counter_digest [(1200, CreateEscrow 3 7 4), (1400, ReleaseEscrow 2 0 [] True)]
       (run counter_digest [(1000, CreateEscrow 1 10 2), (1100, ReturnEscrow 1 0 [] True)] deployed)))) \<and>
   escrows (run counter_digest [(1200, CreateEscrow 3 7 4), (1400, ReleaseEscrow 2 0 [] True)]
       (run counter_digest [(1000, CreateEscrow 1 10 2), (1100, ReturnEscrow 1 0 [] True)] deployed)) 0
     = escrows (run counter_digest [(1000, CreateEscrow 1 10 2), (1100, ReturnEscrow 1 0 [] True)] deployed) 0 \<and>
   isActive (escrows (run counter_digest [(1000, CreateEscrow 1 10 2)] deployed) 0) \<and>
   0 \<in> set (created_ids (fold (after counter_digest 1300) [CreateEscrow 2 5 3]
                (at_release 0 (run counter_digest [(1000, CreateEscrow 1 10 2)] deployed)))) \<and>
   flags_consistent (escrows (fold (after counter_digest 1300) [CreateEscrow 2 5 3]
                (at_release 0 (run counter_digest [(1000, CreateEscrow 1 10 2)] deployed))) 0)"
  using record_lifecycle [of counter_digest
      "[(1000, CreateEscrow 1 10 2), (1100, ReturnEscrow 1 0 [] True)]" 0 1300 "[]" 0
      "[(1200, CreateEscrow 3 7 4), (1400, ReleaseEscrow 2 0 [] True)]"]
    record_lifecycle [of counter_digest
      "[(1000, CreateEscrow 1 10 2)]" 0 1300 "[CreateEscrow 2 5 3]" 0 "[]"]
  by (auto simp: eval_defs preimages_def inj_on_def flags_consistent_def at_release_def)

section \<open>Errors for finalised escrows\<close>

text \<open>
  C8. The contract holds the checks \<open>require(!escrow.isReleased, "Already released")\<close> and
  \<open>require(!escrow.isReturned, "Already returned")\<close>, but the modifier \<open>escrowExists\<close> runs
  before them and rejects every inactive record. A release or a return of an escrow that
  was returned, or released, therefore ends in "Escrow does not exist", the same error as
  for the identifier 7, which was never created. In no storage reachable from deployment
  does any call end in "Already released" or "Already returned".
\<close>

theorem finalised_escrow_reported_as_missing:
  "isReturned (escrows (run counter_digest
       [(1000, CreateEscrow 1 10 2), (1100, ReturnEscrow 1 0 [] True)] deployed) 0) \<and>
   exec counter_digest 1400 (ReleaseEscrow 2 0 [] True)
     (run counter_digest [(1000, CreateEscrow 1 10 2), (1100, ReturnEscrow 1 0 [] True)] deployed)
     = Inl EscrowDoesNotExist \<and>
   exec counter_digest 1100 (ReturnEscrow 1 0 [] True)
     (run counter_digest [(1000, CreateEscrow 1 10 2), (1100, ReturnEscrow 1 0 [] True)] deployed)
     = Inl EscrowDoesNotExist \<and>
   isReleased (escrows (run counter_digest
       [(1000, CreateEscrow 1 10 2), (1300, ReleaseEscrow 2 0 [] True)] deployed) 0) \<and>
   exec counter_digest 1400 (ReleaseEscrow 2 0 [] True)
     (run counter_digest [(1000, CreateEscrow 1 10 2), (1300, ReleaseEscrow 2 0 [] True)] deployed)
     = Inl EscrowDoesNotExist \<and>
   exec counter_digest 1400 (ReleaseEscrow 2 7 [] True)
     (run counter_digest [(1000, CreateEscrow 1 10 2), (1100, ReturnEscrow 1 0 [] True)] deployed)
     = Inl EscrowDoesNotExist \<and>
   exec H now c (run H txs deployed) \<noteq> Inl AlreadyReleased \<and>
   exec H now c (run H txs deployed) \<noteq> Inl AlreadyReturned"
proof -
  have "well_formed (run H txs deployed)"
    using reachable_consistent(1) [of H txs] by (simp add: consistent_def)
  from already_errors_unreachable [OF this, of H now c] show ?thesis
    by (simp add: eval_defs zeroTransaction_def)
qed

section \<open>Queries\<close>

text \<open>
  C9. \<open>getEscrow\<close> is a view: it takes the storage and returns a record, nothing else. After
  any run from deployment it returns the stored record, which for a created identifier has
  a recipient and an amount different from zero and so differs from the all-zero record;
  for an identifier that was never created it returns the all-zero record, which is thereby
  the signal that no such escrow exists. Right after a creation it returns the record that
  creation stored.
\<close>

theorem getEscrow_record_or_zero:
  "getEscrow i (run H txs deployed) = escrows (run H txs deployed) i \<and>
   (i \<in> set (created_ids (run H txs deployed)) \<longrightarrow>
      getEscrow i (run H txs deployed) \<noteq> zeroTransaction \<and>
      recipient (getEscrow i (run H txs deployed)) \<noteq> 0 \<and>
      amount (getEscrow i (run H txs deployed)) \<noteq> 0) \<and>
   (i \<notin> set (created_ids (run H txs deployed)) \<longrightarrow>
      getEscrow i (run H txs deployed) = zeroTransaction) \<and>
   (createEscrow H caller v now rc st = Inr (k, st') \<longrightarrow>
      getEscrow k st' =
        \<lparr>sender = caller, recipient = rc, amount = v, createdAt = now, releaseTime = now + 300,
         isReleased = False, isReturned = False, isActive = True\<rparr>)"
proof -
  have w: "well_formed (run H txs deployed)"
    using reachable_consistent(1) [of H txs] by (simp add: consistent_def)
  from w [unfolded well_formed_def, rule_format, of i]
  have "i \<in> set (created_ids (run H txs deployed)) \<Longrightarrow>
      recipient (escrows (run H txs deployed) i) \<noteq> 0 \<and> amount (escrows (run H txs deployed) i) \<noteq> 0"
    and "i \<notin> set (created_ids (run H txs deployed)) \<Longrightarrow> escrows (run H txs deployed) i = zeroTransaction"
    by (simp_all split: if_splits)
  moreover have "r \<noteq> zeroTransaction" if "recipient r \<noteq> 0" for r
    using that by (auto simp: zeroTransaction_def)
  ultimately show ?thesis
    by (auto simp: getEscrow_def createEscrow_ids(4))
qed

theorem getEscrow_record_or_zero_witness:
  "0 \<in> set (created_ids (run counter_digest [(1000, CreateEscrow 1 10 2), (1100, ReturnEscrow 1 0 [] True)] deployed)) \<and>
   getEscrow 0 (run counter_digest [(1000, CreateEscrow 1 10 2), (1100, ReturnEscrow 1 0 [] True)] deployed) =
     \<lparr>sender = 1, recipient = 2, amount = 10, createdAt = 1000, releaseTime = 1300,
      isReleased = False, isReturned = True, isActive = False\<rparr> \<and>
   getEscrow 0 (run counter_digest [(1000, CreateEscrow 1 10 2), (1100, ReturnEscrow 1 0 [] True)] deployed)
     \<noteq> zeroTransaction \<and>
   7 \<notin> set (created_ids (run counter_digest [(1000, CreateEscrow 1 10 2), (1100, ReturnEscrow 1 0 [] True)] deployed)) \<and>
   getEscrow 7 (run counter_digest [(1000, CreateEscrow 1 10 2), (1100, ReturnEscrow 1 0 [] True)] deployed)
     = zeroTransaction \<and>
   createEscrow counter_digest 1 10 1000 2 deployed =
     Inr (0, after counter_digest 1000 (CreateEscrow 1 10 2) deployed) \<and>
   getEscrow 0 (after counter_digest 1000 (CreateEscrow 1 10 2) deployed) =
     \<lparr>sender = 1, recipient = 2, amount = 10, createdAt = 1000, releaseTime = 1300,
      isReleased = False, isReturned = False, isActive = True\<rparr>"
  using getEscrow_record_or_zero [of 0 counter_digest
      "[(1000, CreateEscrow 1 10 2), (1100, ReturnEscrow 1 0 [] True)]" 1 10 1000 2 deployed 0
      "after counter_digest 1000 (CreateEscrow 1 10 2) deployed"]
    getEscrow_record_or_zero [of 7 counter_digest
      "[(1000, CreateEscrow 1 10 2), (1100, ReturnEscrow 1 0 [] True)]" 1 10 1000 2 deployed 0
      "after counter_digest 1000 (CreateEscrow 1 10 2) deployed"]
  by (simp add: eval_defs getEscrow_def zeroTransaction_def)

text \<open>
  C10. The views never revert: they are total functions. For an identifier that was never
  created, in any storage reachable from deployment, \<open>getEscrow\<close> returns the all-zero
  record, \<open>getEscrowStatus\<close> returns \<open>(false, false, false, 0)\<close>, and \<open>canReturn\<close> and
  \<open>canRelease\<close> are false. In any storage, \<open>getEscrowStatus\<close> returns the three flags of the
  record and a remaining time that is \<open>releaseTime - block.timestamp\<close> when
  \<open>block.timestamp < releaseTime\<close> and 0 otherwise, so that as a number it is the difference
  cut off at 0 and the subtraction never wraps.
\<close>

theorem queries_total_on_unknown_ids:
  "(i \<notin> set (created_ids (run H txs deployed)) \<longrightarrow>
      getEscrow i (run H txs deployed) = zeroTransaction \<and>
      getEscrowStatus now i (run H txs deployed) = (False, False, False, 0) \<and>
      \<not> canReturn now i (run H txs deployed) \<and> \<not> canRelease now i (run H txs deployed)) \<and>
   snd (snd (snd (getEscrowStatus now i st))) =
     (if now < releaseTime (escrows st i) then releaseTime (escrows st i) - now else 0) \<and>
   unat (snd (snd (snd (getEscrowStatus now i st)))) = unat (releaseTime (escrows st i)) - unat now \<and>
   fst (getEscrowStatus now i st) = isActive (escrows st i) \<and>
   fst (snd (getEscrowStatus now i st)) = isReleased (escrows st i) \<and>
   fst (snd (snd (getEscrowStatus now i st))) = isReturned (escrows st i)"
proof -
  have w: "well_formed (run H txs deployed)"
    using reachable_consistent(1) [of H txs] by (simp add: consistent_def)
  from w [unfolded well_formed_def, rule_format, of i]
  have z: "i \<notin> set (created_ids (run H txs deployed)) \<Longrightarrow> escrows (run H txs deployed) i = zeroTransaction"
    by (simp split: if_splits)
  have u: "unat (if now < rt then rt - now else 0) = unat rt - unat now" for rt :: uint256
    by (auto simp: unat_sub word_less_nat_alt word_le_nat_alt not_less)
  show ?thesis
    using z u [of "releaseTime (escrows st i)"]
    by (auto simp: getEscrow_def getEscrowStatus_def canReturn_def canRelease_def Let_def zeroTransaction_def)
qed

theorem queries_total_on_unknown_ids_witness:
  "7 \<notin> set (created_ids (run counter_digest [(1000, CreateEscrow 1 10 2)] deployed)) \<and>
   getEscrow 7 (run counter_digest [(1000, CreateEscrow 1 10 2)] deployed) = zeroTransaction \<and>
   getEscrowStatus 1100 7 (run counter_digest [(1000, CreateEscrow 1 10 2)] deployed) = (False, False, False, 0) \<and>
   \<not> canReturn 1100 7 (run counter_digest [(1000, CreateEscrow 1 10 2)] deployed) \<and>
   \<not> canRelease 1100 7 (run counter_digest [(1000, CreateEscrow 1 10 2)] deployed) \<and>
   getEscrowStatus 1100 0 (run counter_digest [(1000, CreateEscrow 1 10 2)] deployed) = (True, False, False, 200) \<and>
   getEscrowStatus 1400 0 (run counter_digest [(1000, CreateEscrow 1 10 2)] deployed) = (True, False, False, 0)"
  using queries_total_on_unknown_ids [of 7 counter_digest "[(1000, CreateEscrow 1 10 2)]" 1100
      "run counter_digest [(1000, CreateEscrow 1 10 2)] deployed"]
  by (simp add: eval_defs getEscrow_def getEscrowStatus_def canReturn_def canRelease_def zeroTransaction_def)

end
